theory Spec2Isabelle
  imports Complex_Main
begin

section \<open>Text, lines and POSIX paths\<close>

text \<open>
  Python strings are modelled as \<open>string\<close>, a character standing for the code point of
  its number (the text handled has code points below 256). The path functions are those
  of \<^verbatim>\<open>posixpath\<close>, the \<^verbatim>\<open>os.path\<close> of a POSIX system.
\<close>

definition sep :: char where
  "sep = CHR ''/''"

definition LF :: char where
  "LF = CHR 0x0A"

definition CR :: char where
  "CR = CHR 0x0D"

text \<open>
  The characters below 256 that \<^verbatim>\<open>str.strip()\<close> removes: the ASCII white space, the
  four separators \<^verbatim>\<open>U+001C\<close> to \<^verbatim>\<open>U+001F\<close>, next line \<^verbatim>\<open>U+0085\<close> and the no-break
  space \<^verbatim>\<open>U+00A0\<close>.
\<close>

definition is_space :: "char \<Rightarrow> bool" where
  "is_space c = (c \<in> set [CHR 0x09, CHR 0x0A, CHR 0x0B, CHR 0x0C, CHR 0x0D,
                         CHR 0x1C, CHR 0x1D, CHR 0x1E, CHR 0x1F, CHR 0x20,
                         CHR 0x85, CHR 0xA0])"

definition strip :: "string \<Rightarrow> string" where
  "strip s = rev (dropWhile is_space (rev (dropWhile is_space s)))"

text \<open>
  A file opened in text mode with the default \<^verbatim>\<open>newline=None\<close> translates
  \<^verbatim>\<open>\r\n\<close> and \<^verbatim>\<open>\r\<close> to \<^verbatim>\<open>\n\<close> on reading; iterating over it yields the lines,
  each with its terminator, the last one without when the text does not end in one.
\<close>

fun universal_newlines :: "string \<Rightarrow> string" where
  "universal_newlines [] = []"
| "universal_newlines [c] = [if c = CR then LF else c]"
| "universal_newlines (c # d # cs) =
     (if c = CR \<and> d = LF then LF # universal_newlines cs
      else if c = CR then LF # universal_newlines (d # cs)
      else c # universal_newlines (d # cs))"

fun split_lines :: "string \<Rightarrow> string \<Rightarrow> string list" where
  "split_lines cur [] = (if cur = [] then [] else [cur])"
| "split_lines cur (c # cs) =
     (if c = LF then (cur @ [LF]) # split_lines [] cs
      else split_lines (cur @ [c]) cs)"

definition read_lines :: "string \<Rightarrow> string list" where
  "read_lines txt = split_lines [] (universal_newlines txt)"

text \<open>\<^verbatim>\<open>posixpath.join(a, b)\<close>.\<close>

definition os_path_join :: "string \<Rightarrow> string \<Rightarrow> string" where
  "os_path_join a b =
     (if b \<noteq> [] \<and> hd b = sep then b
      else if a = [] \<or> last a = sep then a @ b
      else a @ [sep] @ b)"

text \<open>
  \<^verbatim>\<open>posixpath.split(p)\<close>: cut after the last separator, then strip the trailing
  separators of the head unless the head consists of separators only.
\<close>

definition rstrip_sep :: "string \<Rightarrow> string" where
  "rstrip_sep h = rev (dropWhile (\<lambda>c. c = sep) (rev h))"

definition os_path_split :: "string \<Rightarrow> string \<times> string" where
  "os_path_split p =
     (let head = rev (dropWhile (\<lambda>c. c \<noteq> sep) (rev p));
          tail = rev (takeWhile (\<lambda>c. c \<noteq> sep) (rev p))
      in (if head \<noteq> [] \<and> \<not> list_all (\<lambda>c. c = sep) head then rstrip_sep head else head, tail))"

definition os_path_dirname :: "string \<Rightarrow> string" where
  "os_path_dirname p = fst (os_path_split p)"

definition os_path_basename :: "string \<Rightarrow> string" where
  "os_path_basename p = snd (os_path_split p)"

section \<open>The file system\<close>

text \<open>
  A file system maps a path, as it is spelled, to a directory or to a file with its
  contents. The empty path stands for the working directory and a path of separators
  only for the root; both are directories that always exist. Two spellings of one file
  (\<^verbatim>\<open>out/./a.png\<close> for \<^verbatim>\<open>out/a.png\<close>, \<^verbatim>\<open>./downloaded.log\<close> for \<^verbatim>\<open>downloaded.log\<close>) are
  two files here, so nothing below is to be read as a statement about a path under
  another spelling. Failures of the device (permissions, a full disk) are not modelled.
\<close>

datatype node = Dir | File string

type_synonym filesystem = "string \<rightharpoonup> node"

datatype error =
    FileNotFoundError
  | FileExistsError
  | NotADirectoryError
  | IsADirectoryError
  | ValueError
  | OverflowError

definition is_root :: "string \<Rightarrow> bool" where
  "is_root p = (p \<noteq> [] \<and> list_all (\<lambda>c. c = sep) p)"

definition os_path_exists :: "filesystem \<Rightarrow> string \<Rightarrow> bool" where
  "os_path_exists fsys p = (is_root p \<or> fsys p \<noteq> None)"

definition os_path_isdir :: "filesystem \<Rightarrow> string \<Rightarrow> bool" where
  "os_path_isdir fsys p = (is_root p \<or> fsys p = Some Dir)"

text \<open>The path itself and the directories above it, nearest first.\<close>

function ancestors :: "string \<Rightarrow> string list" where
  "ancestors d = (if d = [] \<or> is_root d then [] else d # ancestors (os_path_dirname d))"
  by pat_completeness auto
termination
proof (relation "measure length")
  show "wf (measure length)" by simp
next
  fix d :: string
  assume a: "\<not> (d = [] \<or> is_root d)"
  let ?h = "rev (dropWhile (\<lambda>c. c \<noteq> sep) (rev d))"
  let ?t = "rev (takeWhile (\<lambda>c. c \<noteq> sep) (rev d))"
  have split: "?h @ ?t = d"
    by (metis rev_append rev_rev_ident takeWhile_dropWhile_id)
  have le: "length (rstrip_sep ?h) \<le> length ?h"
    by (simp add: rstrip_sep_def length_dropWhile_le)
  have "length (os_path_dirname d) < length d"
  proof (cases "?t = []")
    case False
    then have "0 < length ?t" by simp
    moreover have "length ?h + length ?t = length d"
      using split by (metis length_append)
    ultimately have "length ?h < length d" by linarith
    then show ?thesis
      using le by (auto simp: os_path_dirname_def os_path_split_def Let_def)
  next
    case True
    then have hd: "?h = d" using split by simp
    from a have ne: "d \<noteq> []" and nr: "\<not> list_all (\<lambda>c. c = sep) d"
      by (auto simp: is_root_def)
    from True have "takeWhile (\<lambda>c. c \<noteq> sep) (rev d) = []" by simp
    then have "hd (rev d) = sep"
      using ne by (cases "rev d") (auto split: if_splits)
    then have "length (dropWhile (\<lambda>c. c = sep) (rev d)) < length (rev d)"
      using ne by (cases "rev d") (auto simp: length_dropWhile_le le_imp_less_Suc)
    then have "length (rstrip_sep d) < length d"
      by (simp add: rstrip_sep_def)
    then show ?thesis
      using hd ne nr by (simp add: os_path_dirname_def os_path_split_def Let_def)
  qed
  then show "(os_path_dirname d, d) \<in> measure length" by simp
qed

declare ancestors.simps [simp del]

text \<open>
  \<^verbatim>\<open>os.makedirs(name, exist_ok=True)\<close>, by its effect: every directory of the chain that
  is missing is created; a file in the way is an error, and so is the empty name.
\<close>

definition is_file :: "node option \<Rightarrow> bool" where
  "is_file n = (case n of Some (File _) \<Rightarrow> True | _ \<Rightarrow> False)"

definition os_makedirs :: "filesystem \<Rightarrow> string \<Rightarrow> error + filesystem" where
  "os_makedirs fsys name =
     (if name = [] then Inl FileNotFoundError
      else if list_ex (\<lambda>a. is_file (fsys a)) (ancestors name) then
        Inl (if is_file (fsys name) then FileExistsError else NotADirectoryError)
      else Inr (\<lambda>p. if p \<in> set (ancestors name) then Some Dir else fsys p))"

text \<open>
  \<^verbatim>\<open>open(path, 'wb')\<close> succeeds when the path names no directory and its parent is a
  directory; the file then exists and is empty.
\<close>

definition can_open :: "filesystem \<Rightarrow> string \<Rightarrow> bool" where
  "can_open fsys path =
     (os_path_basename path \<noteq> [] \<and> fsys path \<noteq> Some Dir \<and>
      (os_path_dirname path = [] \<or> os_path_isdir fsys (os_path_dirname path)))"

section \<open>Completion ledger\<close>

definition LOG_FILE :: string where
  "LOG_FILE = ''downloaded.log''"

text \<open>The body of the loop of \<^verbatim>\<open>load_downloaded\<close>, for one line.\<close>

definition add_line :: "string \<Rightarrow> string \<Rightarrow> string set \<Rightarrow> string set" where
  "add_line output_dir line downloaded_files =
     (if strip line \<noteq> [] then
        insert (os_path_join output_dir (snd (os_path_split (strip line)))) downloaded_files
      else downloaded_files)"

definition load_downloaded :: "filesystem \<Rightarrow> string \<Rightarrow> error + string set" where
  "load_downloaded fsys output_dir =
     (if \<not> os_path_exists fsys LOG_FILE then Inr {}
      else case fsys LOG_FILE of
        Some (File txt) \<Rightarrow> Inr (foldl (\<lambda>acc line. add_line output_dir line acc) {} (read_lines txt))
      | _ \<Rightarrow> Inl IsADirectoryError)"

definition save_downloaded :: "filesystem \<Rightarrow> string \<Rightarrow> error + filesystem" where
  "save_downloaded fsys file_path =
     (case fsys LOG_FILE of
        Some Dir \<Rightarrow> Inl IsADirectoryError
      | Some (File txt) \<Rightarrow> Inr (fsys(LOG_FILE \<mapsto> File (txt @ file_path @ [LF])))
      | None \<Rightarrow> Inr (fsys(LOG_FILE \<mapsto> File (file_path @ [LF]))))"

section \<open>URL builder and local prober\<close>

definition construct_url :: "string \<Rightarrow> string \<Rightarrow> string \<Rightarrow> string" where
  "construct_url subdomain filename extension =
     ''https://us-east-1.tixte.net/uploads/'' @ subdomain @ ''/'' @ filename @ ''.'' @ extension"

section \<open>The world outside the program\<close>

text \<open>
  What the server answers to one GET: the request raises, or a reply arrives with a
  status, a \<^verbatim>\<open>content-length\<close> header that \<^verbatim>\<open>int\<close> accepts or not, the chunks
  delivered (each with the seconds elapsed when it is handled) and the way the stream ends.
\<close>

datatype body_end = Complete | Broken

datatype response =
    RequestError
  | Reply (status_code: int) (content_length_ok: bool) (chunks: "(string \<times> real) list") (ending: body_end)

text \<open>
  The environment is fixed for a run: the answer to the \<open>n\<close>-th GET of the run, the
  \<open>n\<close>-th value of \<^verbatim>\<open>random.random()\<close>, \<^verbatim>\<open>glob.glob(pattern, recursive=True)\<close>, the
  rounding of an exact result to the float that Python stores, and the longest duration
  that \<^verbatim>\<open>time.sleep\<close> accepts (a constant of the platform, about \<open>9.2e9\<close> seconds).
\<close>

record env =
  server :: "nat \<Rightarrow> string \<Rightarrow> response"
  rand :: "nat \<Rightarrow> real"
  glob :: "filesystem \<Rightarrow> string \<Rightarrow> string list"
  fl :: "real \<Rightarrow> real"
  sleep_limit :: real

text \<open>\<^verbatim>\<open>random.random()\<close> returns a value of the interval from 0 to 1, 1 excluded.\<close>

definition unit_draws :: "env \<Rightarrow> bool" where
  "unit_draws e = (\<forall>n. 0 \<le> rand e n \<and> rand e n < 1)"

text \<open>
  The state a run changes: the files, the URLs requested so far, the durations slept so
  far and the number of random values drawn. The diagnostic log and the display are
  left out.
\<close>

record world =
  fs :: filesystem
  gets :: "string list"
  sleeps :: "real list"
  draws :: nat

definition file_exists_in_directory :: "env \<Rightarrow> filesystem \<Rightarrow> string \<Rightarrow> string \<Rightarrow> bool" where
  "file_exists_in_directory e fsys directory filename =
     (let pattern = os_path_join (os_path_join directory ''**'') filename;
          matches = glob e fsys pattern
      in length matches > 0)"

text \<open>
  A float is modelled as the real number it denotes; the delay, the jitter and the draws
  are finite numbers. Every arithmetic operation on floats rounds its exact result.
\<close>

definition float_add :: "env \<Rightarrow> real \<Rightarrow> real \<Rightarrow> real" where
  "float_add e x y = fl e (x + y)"

definition float_sub :: "env \<Rightarrow> real \<Rightarrow> real \<Rightarrow> real" where
  "float_sub e x y = fl e (x - y)"

definition float_mul :: "env \<Rightarrow> real \<Rightarrow> real \<Rightarrow> real" where
  "float_mul e x y = fl e (x * y)"

text \<open>
  Rounding keeps the order, keeps zero, and leaves a float as it is.
\<close>

definition float_rounding :: "env \<Rightarrow> bool" where
  "float_rounding e =
     ((\<forall>x y. x \<le> y \<longrightarrow> fl e x \<le> fl e y) \<and> fl e 0 = 0 \<and> (\<forall>x. fl e (fl e x) = fl e x))"

text \<open>\<^verbatim>\<open>random.uniform(a, b)\<close> is \<^verbatim>\<open>a + (b - a) * random()\<close>.\<close>

definition random_uniform :: "env \<Rightarrow> real \<Rightarrow> real \<Rightarrow> world \<Rightarrow> real \<times> world" where
  "random_uniform e a b w =
     (float_add e a (float_mul e (float_sub e b a) (rand e (draws w))), w\<lparr>draws := draws w + 1\<rparr>)"

text \<open>
  \<^verbatim>\<open>time.sleep\<close> raises \<^verbatim>\<open>OverflowError\<close> for a duration beyond what it can hold, of either
  sign, and \<^verbatim>\<open>ValueError\<close> for a negative one.
\<close>

definition time_sleep :: "env \<Rightarrow> real \<Rightarrow> world \<Rightarrow> (error + unit) \<times> world" where
  "time_sleep e t w =
     (if sleep_limit e < \<bar>t\<bar> then (Inl OverflowError, w)
      else if t < 0 then (Inl ValueError, w)
      else (Inr (), w\<lparr>sleeps := sleeps w @ [t]\<rparr>))"

section \<open>Retrying fetcher\<close>

text \<open>
  The loop over \<^verbatim>\<open>response.iter_content\<close>: the bytes written to the file so far, their
  number and the last speed computed.
\<close>

fun iter_content :: "(string \<times> real) list \<Rightarrow> string \<Rightarrow> nat \<Rightarrow> real \<Rightarrow> string \<times> nat \<times> real" where
  "iter_content [] f bytes_downloaded final_speed = (f, bytes_downloaded, final_speed)"
| "iter_content ((chunk, elapsed) # rest) f bytes_downloaded final_speed =
     (if chunk = [] then iter_content rest f bytes_downloaded final_speed
      else let f' = f @ chunk;
               n = bytes_downloaded + length chunk
           in iter_content rest f' n (if elapsed > 0 then real n / elapsed else final_speed))"

datatype attempt_result = Success real | Failed

text \<open>
  The body of the \<^verbatim>\<open>try\<close> of one attempt. Every exception raised in it is caught by one
  of the two handlers, so the attempt either returns or falls through to the retry logic.
\<close>

definition attempt_once :: "filesystem \<Rightarrow> string \<Rightarrow> response \<Rightarrow> real \<Rightarrow> attempt_result \<times> filesystem \<times> real" where
  "attempt_once fsys save_path resp final_speed =
     (case resp of
        RequestError \<Rightarrow> (Failed, fsys, final_speed)
      | Reply st clen_ok cs e \<Rightarrow>
          if st = 200 then
            if \<not> clen_ok then (Failed, fsys, final_speed)
            else if \<not> can_open fsys save_path then (Failed, fsys, final_speed)
            else
              (case iter_content cs [] 0 final_speed of (f, n, speed) \<Rightarrow>
                 (case e of
                    Complete \<Rightarrow> (Success speed, fsys(save_path \<mapsto> File f), speed)
                  | Broken \<Rightarrow> (Failed, fsys(save_path \<mapsto> File f), speed)))
          else (Failed, fsys, final_speed))"

text \<open>
  \<^verbatim>\<open>base_delay * (2 ** attempt)\<close>: the power is an integer, and its conversion to a float
  raises \<^verbatim>\<open>OverflowError\<close> from \<open>2 ** 1024\<close> on.
\<close>

definition times_power_of_two :: "env \<Rightarrow> real \<Rightarrow> nat \<Rightarrow> error + real" where
  "times_power_of_two e base_delay attempt =
     (if 1024 \<le> attempt then Inl OverflowError
      else Inr (float_mul e base_delay (2 ^ attempt)))"

text \<open>
  The retry logic after a failed attempt that is not the last: the duration is computed
  and slept, outside the \<^verbatim>\<open>try\<close>. The product is evaluated before the draw.
\<close>

definition backoff :: "env \<Rightarrow> real \<Rightarrow> real \<Rightarrow> nat \<Rightarrow> world \<Rightarrow> (error + unit) \<times> world" where
  "backoff e base_delay jitter attempt w =
     (case times_power_of_two e base_delay attempt of
        Inl err \<Rightarrow> (Inl err, w)
      | Inr b \<Rightarrow>
          (case random_uniform e 0 jitter w of (u, w') \<Rightarrow>
             (let sleep_time = float_add e b u
              in time_sleep e sleep_time w')))"

function download_loop ::
  "env \<Rightarrow> string \<Rightarrow> string \<Rightarrow> int \<Rightarrow> real \<Rightarrow> real \<Rightarrow> nat \<Rightarrow> real \<Rightarrow> world \<Rightarrow> (error + bool \<times> real) \<times> world" where
  "download_loop e url save_path max_retries base_delay jitter attempt final_speed w =
     (if int attempt \<le> max_retries then
        (let resp = server e (length (gets w)) url;
             w1 = w\<lparr>gets := gets w @ [url]\<rparr>
         in case attempt_once (fs w1) save_path resp final_speed of
              (Success speed, fs', _) \<Rightarrow> (Inr (True, speed), w1\<lparr>fs := fs'\<rparr>)
            | (Failed, fs', speed) \<Rightarrow>
                (let w2 = w1\<lparr>fs := fs'\<rparr>;
                     attempt' = attempt + 1
                 in if int attempt' \<le> max_retries then
                      (case backoff e base_delay jitter attempt' w2 of
                         (Inl err, w3) \<Rightarrow> (Inl err, w3)
                       | (Inr _, w3) \<Rightarrow>
                           download_loop e url save_path max_retries base_delay jitter attempt' speed w3)
                    else download_loop e url save_path max_retries base_delay jitter attempt' speed w2))
      else (Inr (False, 0), w))"
  by pat_completeness auto
termination
  by (relation "measure (\<lambda>(e, url, save_path, max_retries, base_delay, jitter, attempt, final_speed, w).
        nat (max_retries + 1 - int attempt))") auto

declare download_loop.simps [simp del]

definition download_file ::
  "env \<Rightarrow> string \<Rightarrow> string \<Rightarrow> int \<Rightarrow> real \<Rightarrow> real \<Rightarrow> world \<Rightarrow> (error + bool \<times> real) \<times> world" where
  "download_file e url save_path max_retries base_delay jitter w =
     download_loop e url save_path max_retries base_delay jitter 0 0 w"

section \<open>Batch driver\<close>

text \<open>
  The command line (the manifest path and the user agent play no part here), the
  settings and one row of the manifest. \<^verbatim>\<open>config.get\<close> and \<^verbatim>\<open>row.get\<close> give
  \<^verbatim>\<open>None\<close> for a missing key; the manifest is taken as read, every row with its
  \<^verbatim>\<open>Filename\<close> and \<^verbatim>\<open>Extension\<close>. An interruption from the keyboard is not modelled.
\<close>

record args =
  args_output :: string
  delay :: real
  jitter :: real
  max_retries :: int
  dry_run :: bool

record config =
  local_check_dir :: "string option"
  default_subdomain :: "string option"

record row =
  Filename :: string
  Extension :: string
  Subdomain :: "string option"

record counters =
  downloaded_count :: nat
  skipped_logged :: nat
  skipped_exists_output :: nat
  skipped_exists_local :: nat
  skipped_dry_run :: nat

definition zero_counters :: counters where
  "zero_counters = \<lparr>downloaded_count = 0, skipped_logged = 0, skipped_exists_output = 0,
                     skipped_exists_local = 0, skipped_dry_run = 0\<rparr>"

text \<open>\<^verbatim>\<open>row.get('Subdomain') or default_subdomain or ''\<close>: the first operand that is true.\<close>

definition row_subdomain :: "row \<Rightarrow> config \<Rightarrow> string" where
  "row_subdomain r cfg =
     (case Subdomain r of
        Some s \<Rightarrow> if s \<noteq> [] then s else (case default_subdomain cfg of Some d \<Rightarrow> d | None \<Rightarrow> [])
      | None \<Rightarrow> (case default_subdomain cfg of Some d \<Rightarrow> d | None \<Rightarrow> []))"

definition row_save_name :: "row \<Rightarrow> string" where
  "row_save_name r = Filename r @ ''.'' @ Extension r"

definition row_save_path :: "args \<Rightarrow> row \<Rightarrow> string" where
  "row_save_path a r = os_path_join (args_output a) (row_save_name r)"

definition row_url :: "config \<Rightarrow> row \<Rightarrow> string" where
  "row_url cfg r = construct_url (row_subdomain r cfg) (Filename r) (Extension r)"

text \<open>\<^verbatim>\<open>local_check_dir and file_exists_in_directory(local_check_dir, save_name)\<close>.\<close>

definition found_in_local_dir :: "env \<Rightarrow> config \<Rightarrow> filesystem \<Rightarrow> string \<Rightarrow> bool" where
  "found_in_local_dir e cfg fsys save_name =
     (case local_check_dir cfg of
        None \<Rightarrow> False
      | Some d \<Rightarrow> d \<noteq> [] \<and> file_exists_in_directory e fsys d save_name)"

text \<open>What follows a call of the fetcher that returned: the ledger, the counter, the pause.\<close>

definition after_download ::
  "env \<Rightarrow> args \<Rightarrow> string \<Rightarrow> counters \<Rightarrow> bool \<Rightarrow> world \<Rightarrow> (error + counters) \<times> world" where
  "after_download e a save_path c success w =
     (case (if success then
              (case save_downloaded (fs w) save_path of
                 Inl err \<Rightarrow> Inl err
               | Inr fs' \<Rightarrow> Inr (c\<lparr>downloaded_count := downloaded_count c + 1\<rparr>, w\<lparr>fs := fs'\<rparr>))
            else Inr (c, w)) of
        Inl err \<Rightarrow> (Inl err, w)
      | Inr (c', w') \<Rightarrow>
          (case random_uniform e 0 (jitter a) w' of (u, w'') \<Rightarrow>
             (let delay_time = float_add e (delay a) u
              in case time_sleep e delay_time w'' of
                   (Inl err, w3) \<Rightarrow> (Inl err, w3)
                 | (Inr _, w3) \<Rightarrow> (Inr c', w3))))"

text \<open>The body of the loop over the rows, for one row.\<close>

definition process_row ::
  "env \<Rightarrow> args \<Rightarrow> config \<Rightarrow> string set \<Rightarrow> row \<Rightarrow> counters \<times> world \<Rightarrow> (error + counters) \<times> world" where
  "process_row e a cfg downloaded r cw =
     (case cw of (c, w) \<Rightarrow>
       (let save_name = row_save_name r;
            save_path = row_save_path a r
        in case os_makedirs (fs w) (os_path_dirname save_path) of
             Inl err \<Rightarrow> (Inl err, w)
           | Inr fs1 \<Rightarrow>
               (let w1 = w\<lparr>fs := fs1\<rparr>
                in if save_path \<in> downloaded then
                     (Inr (c\<lparr>skipped_logged := skipped_logged c + 1\<rparr>), w1)
                   else if os_path_exists (fs w1) save_path then
                     (Inr (c\<lparr>skipped_exists_output := skipped_exists_output c + 1\<rparr>), w1)
                   else if found_in_local_dir e cfg (fs w1) save_name then
                     (Inr (c\<lparr>skipped_exists_local := skipped_exists_local c + 1\<rparr>), w1)
                   else if dry_run a then
                     (Inr (c\<lparr>skipped_dry_run := skipped_dry_run c + 1\<rparr>), w1)
                   else
                     (case download_file e (row_url cfg r) save_path (max_retries a) (delay a) (jitter a) w1 of
                        (Inl err, w2) \<Rightarrow> (Inl err, w2)
                      | (Inr (success, download_speed), w2) \<Rightarrow>
                          after_download e a save_path c success w2))))"

fun process_rows ::
  "env \<Rightarrow> args \<Rightarrow> config \<Rightarrow> string set \<Rightarrow> row list \<Rightarrow> counters \<times> world \<Rightarrow> (error + counters) \<times> world" where
  "process_rows e a cfg downloaded [] cw = (Inr (fst cw), snd cw)"
| "process_rows e a cfg downloaded (r # rs) cw =
     (case process_row e a cfg downloaded r cw of
        (Inl err, w') \<Rightarrow> (Inl err, w')
      | (Inr c', w') \<Rightarrow> process_rows e a cfg downloaded rs (c', w'))"

text \<open>
  A run: the output directory is created, the ledger is read once into the set that the
  loop consults, and the rows are processed in the order of the manifest.
\<close>

definition main :: "env \<Rightarrow> args \<Rightarrow> config \<Rightarrow> row list \<Rightarrow> world \<Rightarrow> (error + counters) \<times> world" where
  "main e a cfg rows w =
     (case os_makedirs (fs w) (args_output a) of
        Inl err \<Rightarrow> (Inl err, w)
      | Inr fs1 \<Rightarrow>
          (case load_downloaded fs1 (args_output a) of
             Inl err \<Rightarrow> (Inl err, w\<lparr>fs := fs1\<rparr>)
           | Inr downloaded \<Rightarrow> process_rows e a cfg downloaded rows (zero_counters, w\<lparr>fs := fs1\<rparr>)))"

section \<open>Example inputs\<close>

text \<open>
  A small run used to instantiate the theorems: the output directory \<^verbatim>\<open>out\<close>, the row
  \<^verbatim>\<open>a.png\<close>, a prober that finds \<^verbatim>\<open>a.png\<close> under \<^verbatim>\<open>local\<close>, and a random source
  that always returns one half. All the numbers met are floats, which rounding leaves as
  they are. Further rows have a nested name and an extension that ends in a space; the
  servers differ in what they answer to the successive GETs.
\<close>

abbreviation ex_env :: "(nat \<Rightarrow> string \<Rightarrow> response) \<Rightarrow> env" where
  "ex_env srv \<equiv> \<lparr>server = srv, rand = (\<lambda>n. 1 / 2),
     glob = (\<lambda>fsys pattern. if pattern = ''local/**/a.png'' then [''local/x/a.png''] else []),
     fl = (\<lambda>x. x), sleep_limit = 9223372036\<rparr>"

abbreviation ex_args :: "bool \<Rightarrow> args" where
  "ex_args dry \<equiv> \<lparr>args_output = ''out'', delay = 1, jitter = 1 / 2, max_retries = 2, dry_run = dry\<rparr>"

abbreviation ex_config :: "string option \<Rightarrow> config" where
  "ex_config dir \<equiv> \<lparr>local_check_dir = dir, default_subdomain = Some ''cdn''\<rparr>"

abbreviation ex_row :: row where
  "ex_row \<equiv> \<lparr>Filename = ''a'', Extension = ''png'', Subdomain = None\<rparr>"

abbreviation ex_world :: "filesystem \<Rightarrow> world" where
  "ex_world fsys \<equiv> \<lparr>fs = fsys, gets = [], sleeps = [], draws = 0\<rparr>"

abbreviation always_500 :: "nat \<Rightarrow> string \<Rightarrow> response" where
  "always_500 \<equiv> (\<lambda>n u. Reply 500 True [] Complete)"

abbreviation broken_then_ok :: "nat \<Rightarrow> string \<Rightarrow> response" where
  "broken_then_ok \<equiv> (\<lambda>n u. if n = 0 then Reply 200 True [(''ab'', 1), (''cd'', 2)] Broken
                          else if n = 1 then Reply 500 True [] Complete
                          else Reply 200 True [(''xyz'', 1)] Complete)"

abbreviation nested_row :: row where
  "nested_row \<equiv> \<lparr>Filename = ''sub/a'', Extension = ''png'', Subdomain = None\<rparr>"

abbreviation always_abcd :: "nat \<Rightarrow> string \<Rightarrow> response" where
  "always_abcd \<equiv> (\<lambda>n u. Reply 200 True [(''abcd'', 1)] Complete)"

abbreviation always_broken :: "nat \<Rightarrow> string \<Rightarrow> response" where
  "always_broken \<equiv> (\<lambda>n u. Reply 200 True [(''ab'', 1)] Broken)"


abbreviation broken_thrice_then_abcd :: "nat \<Rightarrow> string \<Rightarrow> response" where
  "broken_thrice_then_abcd \<equiv> (\<lambda>n u. if n < 3 then Reply 200 True [(''ab'', 1)] Broken
                                    else Reply 200 True [(''abcd'', 1)] Complete)"

abbreviation spaced_row :: row where
  "spaced_row \<equiv> \<lparr>Filename = ''a'', Extension = ''png '', Subdomain = None\<rparr>"

section \<open>Properties of the retry loop\<close>

lemma backoff_frame:
  "backoff e bd j k w = (r, w') \<Longrightarrow> fs w' = fs w \<and> gets w' = gets w"
  by (auto simp: backoff_def random_uniform_def time_sleep_def Let_def
      split: sum.splits if_splits)


lemma download_loop_exit:
  "\<not> int k \<le> mr \<Longrightarrow> download_loop e url sp mr bd j k s0 w = (Inr (False, 0), w)"
  by (subst download_loop.simps) simp

lemma download_loop_success:
  "int k \<le> mr \<Longrightarrow> attempt_once (fs w) sp (server e (length (gets w)) url) s0 = (Success s, fs', s') \<Longrightarrow>
   download_loop e url sp mr bd j k s0 w = (Inr (True, s), w\<lparr>gets := gets w @ [url], fs := fs'\<rparr>)"
  by (subst download_loop.simps) (simp add: Let_def)

lemma download_loop_last:
  "int k \<le> mr \<Longrightarrow> attempt_once (fs w) sp (server e (length (gets w)) url) s0 = (Failed, fs', s') \<Longrightarrow>
   \<not> int (Suc k) \<le> mr \<Longrightarrow>
   download_loop e url sp mr bd j k s0 w = (Inr (False, 0), w\<lparr>gets := gets w @ [url], fs := fs'\<rparr>)"
  by (subst download_loop.simps) (simp add: Let_def download_loop_exit)

lemma download_loop_backoff_error:
  "int k \<le> mr \<Longrightarrow> attempt_once (fs w) sp (server e (length (gets w)) url) s0 = (Failed, fs', s') \<Longrightarrow>
   int (Suc k) \<le> mr \<Longrightarrow>
   backoff e bd j (Suc k) (w\<lparr>gets := gets w @ [url], fs := fs'\<rparr>) = (Inl err, w3) \<Longrightarrow>
   download_loop e url sp mr bd j k s0 w = (Inl err, w3)"
  by (subst download_loop.simps) (simp add: Let_def)

lemma download_loop_retry:
  "int k \<le> mr \<Longrightarrow> attempt_once (fs w) sp (server e (length (gets w)) url) s0 = (Failed, fs', s') \<Longrightarrow>
   int (Suc k) \<le> mr \<Longrightarrow>
   backoff e bd j (Suc k) (w\<lparr>gets := gets w @ [url], fs := fs'\<rparr>) = (Inr u, w3) \<Longrightarrow>
   download_loop e url sp mr bd j k s0 w = download_loop e url sp mr bd j (Suc k) s' w3"
  by (subst download_loop.simps) (simp add: Let_def)

lemma download_loop_cases [case_names exit success last backoff_error retry]:
  assumes "\<And>k s0 w. \<not> int k \<le> mr \<Longrightarrow> P k s0 w"
    and "\<And>k s0 w s fs' s'. int k \<le> mr \<Longrightarrow>
           attempt_once (fs w) sp (server e (length (gets w)) url) s0 = (Success s, fs', s') \<Longrightarrow> P k s0 w"
    and "\<And>k s0 w fs' s'. int k \<le> mr \<Longrightarrow>
           attempt_once (fs w) sp (server e (length (gets w)) url) s0 = (Failed, fs', s') \<Longrightarrow>
           \<not> int (Suc k) \<le> mr \<Longrightarrow> P k s0 w"
    and "\<And>k s0 w fs' s' err w3. int k \<le> mr \<Longrightarrow>
           attempt_once (fs w) sp (server e (length (gets w)) url) s0 = (Failed, fs', s') \<Longrightarrow>
           int (Suc k) \<le> mr \<Longrightarrow>
           backoff e bd j (Suc k) (w\<lparr>gets := gets w @ [url], fs := fs'\<rparr>) = (Inl err, w3) \<Longrightarrow> P k s0 w"
    and "\<And>k s0 w fs' s' u w3. int k \<le> mr \<Longrightarrow>
           attempt_once (fs w) sp (server e (length (gets w)) url) s0 = (Failed, fs', s') \<Longrightarrow>
           int (Suc k) \<le> mr \<Longrightarrow>
           backoff e bd j (Suc k) (w\<lparr>gets := gets w @ [url], fs := fs'\<rparr>) = (Inr u, w3) \<Longrightarrow>
           P (Suc k) s' w3 \<Longrightarrow> P k s0 w"
  shows "P k s0 w"
proof (induction "nat (mr + 1 - int k)" arbitrary: k s0 w rule: less_induct)
  case (less k s0 w)
  show ?case
  proof (cases "int k \<le> mr")
    case False
    then show ?thesis by (rule assms(1))
  next
    case True
    obtain r fs' s' where att: "attempt_once (fs w) sp (server e (length (gets w)) url) s0 = (r, fs', s')"
      by (metis prod_cases3)
    show ?thesis
    proof (cases r)
      case (Success s)
      with att True show ?thesis by (auto intro: assms(2))
    next
      case Failed
      show ?thesis
      proof (cases "int (Suc k) \<le> mr")
        case False
        with att Failed True show ?thesis by (auto intro: assms(3))
      next
        case le: True
        obtain res w3 where bo: "backoff e bd j (Suc k) (w\<lparr>gets := gets w @ [url], fs := fs'\<rparr>) = (res, w3)"
          by (cases "backoff e bd j (Suc k) (w\<lparr>gets := gets w @ [url], fs := fs'\<rparr>)")
        show ?thesis
        proof (cases res)
          case (Inl err)
          with att Failed le bo \<open>int k \<le> mr\<close> show ?thesis by (auto intro: assms(4))
        next
          case (Inr u)
          have "nat (mr + 1 - int (Suc k)) < nat (mr + 1 - int k)"
            using le by simp
          from less [OF this] have "P (Suc k) s' w3" .
          with att Failed le bo Inr \<open>int k \<le> mr\<close> show ?thesis
            using assms(5) by blast
        qed
      qed
    qed
  qed
qed

lemma download_loop_gets_bound:
  "length (gets (snd (download_loop e url sp mr bd j k s0 w)))
     \<le> length (gets w) + nat (mr + 1 - int k)"
proof (induction k s0 w rule: download_loop_cases [where mr = mr and sp = sp and e = e and url = url and bd = bd and j = j])
  case (exit k s0 w)
  then show ?case by (simp add: download_loop_exit)
next
  case (success k s0 w s fs' s')
  then show ?case by (simp add: download_loop_success)
next
  case (last k s0 w fs' s')
  then show ?case by (simp add: download_loop_last)
next
  case (backoff_error k s0 w fs' s' err w3)
  then show ?case
    using backoff_frame [OF backoff_error(4)] by (simp add: download_loop_backoff_error)
next
  case (retry k s0 w fs' s' u w3)
  then show ?case
    using backoff_frame [OF retry(4)] by (simp add: download_loop_retry)
qed

lemma iter_content_fst: "fst (iter_content cs f n s) = f @ concat (map fst cs)"
  by (induction cs f n s rule: iter_content.induct) (auto simp: Let_def)

lemma attempt_once_content:
  "attempt_once fsys sp resp s0 = (r, fs', s1) \<Longrightarrow>
   fs' = fsys \<or> fs' = fsys(sp \<mapsto> File (concat (map fst (chunks resp))))"
  using iter_content_fst [of "chunks resp" "[]" 0 s0]
  by (auto simp: attempt_once_def split: response.splits if_splits prod.splits body_end.splits)

lemma attempt_once_streams:
  "can_open fsys sp \<Longrightarrow>
   fst (snd (attempt_once fsys sp (Reply 200 True cs en) s0)) = fsys(sp \<mapsto> File (concat (map fst cs)))"
  using iter_content_fst [of cs "[]" 0 s0]
  by (auto simp: attempt_once_def split: prod.splits body_end.splits)


lemma download_loop_content:
  "fs (snd (download_loop e url sp mr bd j k s0 w)) sp = fs w sp \<or>
   (\<exists>i < nat (mr + 1 - int k).
      fs (snd (download_loop e url sp mr bd j k s0 w)) sp =
        Some (File (concat (map fst (chunks (server e (length (gets w) + i) url))))))"
proof (induction k s0 w rule: download_loop_cases [where mr = mr and sp = sp and e = e and url = url and bd = bd and j = j])
  case (exit k s0 w)
  then show ?case by (simp add: download_loop_exit)
next
  case (success k s0 w s fs' s')
  have "0 < nat (mr + 1 - int k)" using success(1) by simp
  then show ?case
    using attempt_once_content [OF success(2)] success(1)
    by (auto simp: download_loop_success [OF success(1,2)] intro!: exI [of _ 0])
next
  case (last k s0 w fs' s')
  have "0 < nat (mr + 1 - int k)" using last(1) by simp
  then show ?case
    using attempt_once_content [OF last(2)]
    by (auto simp: download_loop_last [OF last(1,2,3)] intro!: exI [of _ 0])
next
  case (backoff_error k s0 w fs' s' err w3)
  have "0 < nat (mr + 1 - int k)" using backoff_error(1) by simp
  then show ?case
    using attempt_once_content [OF backoff_error(2)] backoff_frame [OF backoff_error(4)]
    by (auto simp: download_loop_backoff_error [OF backoff_error(1,2,3,4)] intro!: exI [of _ 0])
next
  case (retry k s0 w fs' s' u w3)
  let ?res = "download_loop e url sp mr bd j k s0 w"
  have eq: "?res = download_loop e url sp mr bd j (Suc k) s' w3"
    by (rule download_loop_retry [OF retry(1,2,3,4)])
  have fr: "fs w3 = fs'" "gets w3 = gets w @ [url]"
    using backoff_frame [OF retry(4)] by simp_all
  have pos: "0 < nat (mr + 1 - int k)" using retry(1) by simp
  from retry(5) consider
      (same) "fs (snd ?res) sp = fs' sp"
    | (later) i where "i < nat (mr + 1 - int (Suc k))"
        "fs (snd ?res) sp = Some (File (concat (map fst (chunks (server e (length (gets w) + Suc i) url)))))"
    by (auto simp: eq fr)
  then show ?case
  proof cases
    case same
    then show ?thesis
      using attempt_once_content [OF retry(2)] pos by (auto intro!: exI [of _ 0])
  next
    case later
    have "Suc i < nat (mr + 1 - int k)" using later(1) by simp
    then show ?thesis using later(2) by blast
  qed
qed



section \<open>When the backoff is slept\<close>


lemma uniform_range:
  assumes "float_rounding e" "unit_draws e" "0 \<le> j" "fl e j = j"
  shows "0 \<le> fst (random_uniform e 0 j w) \<and> fst (random_uniform e 0 j w) \<le> j"
proof -
  let ?r = "rand e (draws w)"
  have mono: "\<And>x y. x \<le> y \<Longrightarrow> fl e x \<le> fl e y" and zero: "fl e 0 = 0"
    and idem: "\<And>x. fl e (fl e x) = fl e x"
    using assms(1) by (simp_all add: float_rounding_def)
  have r: "0 \<le> ?r" "?r \<le> 1"
    using assms(2) by (simp_all add: unit_draws_def less_imp_le)
  have "0 \<le> j * ?r" using assms(3) r(1) by simp
  moreover have "j * ?r \<le> j * 1" using assms(3) r(2) by (intro mult_left_mono)
  ultimately have "fl e 0 \<le> fl e (j * ?r)" "fl e (j * ?r) \<le> fl e j"
    by (simp_all add: mono)
  then have "0 \<le> fl e (j * ?r)" "fl e (j * ?r) \<le> j"
    by (simp_all add: zero assms(4))
  moreover have "fst (random_uniform e 0 j w) = fl e (j * ?r)"
    by (simp add: random_uniform_def float_add_def float_mul_def float_sub_def assms(4) idem)
  ultimately show ?thesis by simp
qed

lemma backoff_accepted:
  assumes "float_rounding e" "unit_draws e" "0 \<le> bd" "0 \<le> j" "fl e j = j"
    and "k \<le> K" "K < 1024" "float_add e (float_mul e bd (2 ^ K)) j \<le> sleep_limit e"
  shows "backoff e bd j k w =
     (Inr (), w\<lparr>draws := Suc (draws w),
                sleeps := sleeps w @ [float_add e (float_mul e bd (2 ^ k)) (fst (random_uniform e 0 j w))]\<rparr>)"
proof -
  let ?u = "fst (random_uniform e 0 j w)"
  let ?b = "float_mul e bd (2 ^ k)"
  let ?t = "float_add e ?b ?u"
  have mono: "\<And>x y. x \<le> y \<Longrightarrow> fl e x \<le> fl e y" and zero: "fl e 0 = 0"
    using assms(1) by (simp_all add: float_rounding_def)
  have u: "0 \<le> ?u" "?u \<le> j"
    using uniform_range [OF assms(1,2,4,5)] by simp_all
  have "(2::real) ^ k \<le> 2 ^ K" using assms(6) by simp
  then have "bd * 2 ^ k \<le> bd * 2 ^ K" using assms(3) by (intro mult_left_mono)
  then have bK: "?b \<le> float_mul e bd (2 ^ K)"
    by (simp add: float_mul_def mono)
  have "0 \<le> bd * 2 ^ k" using assms(3) by simp
  then have "fl e 0 \<le> ?b" unfolding float_mul_def by (rule mono)
  then have b0: "0 \<le> ?b" by (simp add: zero)
  have "fl e 0 \<le> ?t"
    unfolding float_add_def using b0 u(1) by (intro mono) simp
  then have t0: "0 \<le> ?t" by (simp add: zero)
  have "?b + ?u \<le> float_mul e bd (2 ^ K) + j" using bK u(2) by simp
  then have "?t \<le> float_add e (float_mul e bd (2 ^ K)) j"
    unfolding float_add_def by (rule mono)
  then have tl: "?t \<le> sleep_limit e" using assms(8) by simp
  have k: "\<not> 1024 \<le> k" using assms(6,7) by simp
  have "\<not> sleep_limit e < \<bar>?t\<bar>" "\<not> ?t < 0" using t0 tl by simp_all
  then show ?thesis
    using k
    by (simp add: backoff_def times_power_of_two_def time_sleep_def Let_def
        split_beta random_uniform_def)
qed

lemma download_loop_returns:
  assumes acc: "\<And>k w. int k \<le> mr \<Longrightarrow> \<exists>w'. backoff e bd j k w = (Inr (), w')"
  shows "\<exists>ok s. fst (download_loop e url sp mr bd j k s0 w) = Inr (ok, s)"
proof (induction k s0 w rule: download_loop_cases [where mr = mr and sp = sp and e = e and url = url and bd = bd and j = j])
  case (exit k s0 w)
  then show ?case by (auto simp: download_loop_exit)
next
  case (success k s0 w s1 fs' s')
  then show ?case by (auto simp: download_loop_success)
next
  case (last k s0 w fs' s')
  then show ?case by (auto simp: download_loop_last)
next
  case (backoff_error k s0 w fs' s' err w3)
  then show ?case using acc [OF backoff_error(3)] by (metis Pair_inject sum.distinct(1))
next
  case (retry k s0 w fs' s' u w3)
  then show ?case by (auto simp: download_loop_retry)
qed













section \<open>Properties of the subdomain\<close>

lemma row_subdomain_empty:
  "row_subdomain (r\<lparr>Subdomain := Some []\<rparr>) cfg = row_subdomain (r\<lparr>Subdomain := None\<rparr>) cfg"
  by (simp add: row_subdomain_def)

lemma process_row_subdomain_empty:
  "process_row e a cfg downloaded (r\<lparr>Subdomain := Some []\<rparr>) cw =
     process_row e a cfg downloaded (r\<lparr>Subdomain := None\<rparr>) cw"
proof -
  let ?r1 = "r\<lparr>Subdomain := Some []\<rparr>" and ?r2 = "r\<lparr>Subdomain := None\<rparr>"
  have u: "row_url cfg ?r1 = row_url cfg ?r2"
    by (simp add: row_url_def row_subdomain_empty)
  have n: "row_save_name ?r1 = row_save_name ?r2"
    by (simp add: row_save_name_def)
  have p: "row_save_path a ?r1 = row_save_path a ?r2"
    by (simp add: row_save_path_def n)
  show ?thesis
    unfolding process_row_def u n p by (rule refl)
qed

text \<open>
  C10. A row whose Subdomain is the empty string is processed exactly as the row without
  a Subdomain: the subdomain used is the configured default, and the URL has an empty
  subdomain segment exactly when the default is absent or empty too.
\<close>

theorem subdomain_empty_as_omitted:
  "process_row e a cfg downloaded (r\<lparr>Subdomain := Some []\<rparr>) cw =
     process_row e a cfg downloaded (r\<lparr>Subdomain := None\<rparr>) cw \<and>
   row_subdomain (r\<lparr>Subdomain := Some []\<rparr>) cfg =
     (case default_subdomain cfg of Some d \<Rightarrow> d | None \<Rightarrow> []) \<and>
   (row_url cfg (r\<lparr>Subdomain := Some []\<rparr>) =
      ''https://us-east-1.tixte.net/uploads//'' @ Filename r @ ''.'' @ Extension r
    \<longleftrightarrow> default_subdomain cfg = None \<or> default_subdomain cfg = Some [])"
proof (intro conjI)
  show "process_row e a cfg downloaded (r\<lparr>Subdomain := Some []\<rparr>) cw =
     process_row e a cfg downloaded (r\<lparr>Subdomain := None\<rparr>) cw"
    by (rule process_row_subdomain_empty)
  show "row_subdomain (r\<lparr>Subdomain := Some []\<rparr>) cfg =
     (case default_subdomain cfg of Some d \<Rightarrow> d | None \<Rightarrow> [])"
    by (simp add: row_subdomain_def)
  show "row_url cfg (r\<lparr>Subdomain := Some []\<rparr>) =
      ''https://us-east-1.tixte.net/uploads//'' @ Filename r @ ''.'' @ Extension r
    \<longleftrightarrow> default_subdomain cfg = None \<or> default_subdomain cfg = Some []"
    by (auto simp: row_url_def row_subdomain_def construct_url_def split: option.splits)
qed

theorem subdomain_empty_as_omitted_witness:
  "row_url \<lparr>local_check_dir = None, default_subdomain = Some ''cdn''\<rparr>
      \<lparr>Filename = ''cat'', Extension = ''png'', Subdomain = Some []\<rparr>
     = ''https://us-east-1.tixte.net/uploads/cdn/cat.png'' \<and>
   row_url \<lparr>local_check_dir = None, default_subdomain = None\<rparr>
      \<lparr>Filename = ''cat'', Extension = ''png'', Subdomain = Some []\<rparr>
     = ''https://us-east-1.tixte.net/uploads//cat.png''"
  using subdomain_empty_as_omitted
    [of _ _ "\<lparr>local_check_dir = None, default_subdomain = Some ''cdn''\<rparr>" _
        "\<lparr>Filename = ''cat'', Extension = ''png'', Subdomain = None\<rparr>"]
    subdomain_empty_as_omitted
    [of _ _ "\<lparr>local_check_dir = None, default_subdomain = None\<rparr>" _
        "\<lparr>Filename = ''cat'', Extension = ''png'', Subdomain = None\<rparr>"]
  by (simp add: row_url_def construct_url_def)

section \<open>Properties of paths and directories\<close>

lemma split_parts:
  "rev (dropWhile (\<lambda>c. c \<noteq> sep) (rev p)) @ rev (takeWhile (\<lambda>c. c \<noteq> sep) (rev p)) = p"
  by (metis rev_append rev_rev_ident takeWhile_dropWhile_id)

lemma basename_dirname_shorter:
  assumes "os_path_basename p \<noteq> []"
  shows "length (os_path_dirname p) < length p"
proof -
  let ?h = "rev (dropWhile (\<lambda>c. c \<noteq> sep) (rev p))"
  let ?t = "rev (takeWhile (\<lambda>c. c \<noteq> sep) (rev p))"
  have "?t \<noteq> []" using assms by (simp add: os_path_basename_def os_path_split_def Let_def)
  then have "0 < length ?t" by simp
  moreover have "length ?h + length ?t = length p"
    using split_parts [of p] by (metis length_append)
  ultimately have "length ?h < length p" by linarith
  moreover have "length (rstrip_sep ?h) \<le> length ?h"
    by (simp add: rstrip_sep_def length_dropWhile_le)
  ultimately show ?thesis
    by (auto simp: os_path_dirname_def os_path_split_def Let_def)
qed

lemma ancestors_self: "d \<noteq> [] \<Longrightarrow> \<not> is_root d \<Longrightarrow> d \<in> set (ancestors d)"
  by (subst ancestors.simps) simp

lemma makedirs_Inr:
  "os_makedirs fsys d = Inr fs1 \<longleftrightarrow>
     d \<noteq> [] \<and> (\<forall>a \<in> set (ancestors d). \<not> is_file (fsys a)) \<and>
     fs1 = (\<lambda>p. if p \<in> set (ancestors d) then Some Dir else fsys p)"
  by (auto simp: os_makedirs_def list_ex_iff)

lemma makedirs_isdir: "os_makedirs fsys d = Inr fs1 \<Longrightarrow> os_path_isdir fs1 d"
proof (cases "is_root d")
  case True
  then show ?thesis by (simp add: os_path_isdir_def)
next
  case False
  assume "os_makedirs fsys d = Inr fs1"
  then have "d \<noteq> []" and fs1: "fs1 = (\<lambda>p. if p \<in> set (ancestors d) then Some Dir else fsys p)"
    by (simp_all add: makedirs_Inr)
  with False have "d \<in> set (ancestors d)" by (simp add: ancestors_self)
  then show ?thesis by (simp add: fs1 os_path_isdir_def)
qed


lemma makedirs_again:
  assumes "os_makedirs fsys d = Inr fs1"
    and "\<forall>a \<in> set (ancestors d). fs2 a = Some Dir"
  shows "os_makedirs fs2 d = Inr fs2"
proof -
  have "(\<lambda>p. if p \<in> set (ancestors d) then Some Dir else fs2 p) = fs2"
    using assms(2) by auto
  moreover have "\<forall>a \<in> set (ancestors d). \<not> is_file (fs2 a)"
    using assms(2) by (simp add: is_file_def)
  ultimately show ?thesis
    using assms(1) by (simp add: makedirs_Inr)
qed

lemma ex_path: "row_save_path (ex_args dry) ex_row = ''out/a.png''"
  by (simp add: row_save_path_def row_save_name_def os_path_join_def sep_def)

lemma ex_dirname: "os_path_dirname ''out/a.png'' = ''out''"
  by (simp add: os_path_dirname_def os_path_split_def rstrip_sep_def sep_def Let_def)

lemma ex_ancestors: "ancestors ''out'' = [''out'']"
  by (simp add: ancestors.simps is_root_def os_path_dirname_def os_path_split_def rstrip_sep_def sep_def Let_def)

lemma ex_makedirs: "fsys ''out'' = Some Dir \<Longrightarrow> os_makedirs fsys ''out'' = Inr fsys"
  by (auto simp: makedirs_Inr ex_ancestors is_file_def)

section \<open>Properties of the batch driver\<close>



section \<open>What follows a fetch\<close>

lemma process_row_fetch:
  assumes "os_makedirs (fs w) (os_path_dirname (row_save_path a r)) = Inr fs1"
    and "row_save_path a r \<notin> downloaded" "\<not> os_path_exists fs1 (row_save_path a r)"
    and "\<not> found_in_local_dir e cfg fs1 (row_save_name r)" "\<not> dry_run a"
  shows "process_row e a cfg downloaded r (c, w) =
     (case download_file e (row_url cfg r) (row_save_path a r) (max_retries a) (delay a) (jitter a)
             (w\<lparr>fs := fs1\<rparr>) of
        (Inl err, w2) \<Rightarrow> (Inl err, w2)
      | (Inr (success, download_speed), w2) \<Rightarrow> after_download e a (row_save_path a r) c success w2)"
  using assms by (simp add: process_row_def Let_def)

lemma time_sleep_frame:
  "time_sleep e t w = (r, w') \<Longrightarrow> fs w' = fs w \<and> gets w' = gets w"
  by (auto simp: time_sleep_def split: if_splits)

lemma after_download_fs:
  "fs (snd (after_download e a sp c success w)) = fs w \<or>
   (success \<and> save_downloaded (fs w) sp = Inr (fs (snd (after_download e a sp c success w))))"
proof -
  have ts: "fs (snd (case time_sleep e t w' of (Inl err, w3) \<Rightarrow> (Inl err, w3)
                      | (Inr u, w3) \<Rightarrow> (Inr c', w3))) = fs w'" for t w' and c' :: counters
    using time_sleep_frame [of e t w']
    by (cases "time_sleep e t w'") (auto split: sum.splits)
  show ?thesis
  proof (cases "success")
    case False
    then show ?thesis
      using ts by (simp add: after_download_def random_uniform_def Let_def)
  next
    case True
    show ?thesis
    proof (cases "save_downloaded (fs w) sp")
      case (Inl err)
      with True show ?thesis by (simp add: after_download_def)
    next
      case (Inr fs')
      with True show ?thesis
        using ts by (simp add: after_download_def random_uniform_def Let_def)
    qed
  qed
qed


lemma after_failed_download_fs:
  "fs (snd (after_download e a sp c False w)) = fs w"
  using after_download_fs [of e a sp c False w] by simp




text \<open>
  With a delay and a jitter bound that are not negative, fewer than 1024 retries and a
  longest backoff that \<^verbatim>\<open>time.sleep\<close> accepts, every backoff is slept and the fetcher
  returns.
\<close>

lemma download_file_returns:
  assumes "float_rounding e" "unit_draws e" "0 \<le> bd" "0 \<le> j" "fl e j = j"
    and "mr < 1024" "float_add e (float_mul e bd (2 ^ nat mr)) j \<le> sleep_limit e"
  shows "\<exists>ok s. fst (download_file e url sp mr bd j w) = Inr (ok, s)"
proof -
  have acc: "\<exists>w'. backoff e bd j k w = (Inr (), w')" if "int k \<le> mr" for k w
  proof -
    have "k \<le> nat mr" "nat mr < 1024" using that assms(6) by arith+
    then show ?thesis
      using backoff_accepted [OF assms(1-5), of k "nat mr" w] assms(7) by simp
  qed
  show ?thesis
    using download_loop_returns [of mr e bd j url sp 0 0 w] acc
    by (simp add: download_file_def)
qed

lemmas eval_defs = download_file_def download_loop.simps attempt_once_def can_open_def
      os_path_basename_def os_path_dirname_def os_path_split_def os_path_isdir_def os_path_exists_def is_root_def
      rstrip_sep_def sep_def random_uniform_def time_sleep_def backoff_def times_power_of_two_def
      float_add_def float_sub_def float_mul_def Let_def






section \<open>Properties of the fetcher\<close>

text \<open>
  C2. With a non-negative retry limit, one call of the fetcher issues at most
  \<open>max_retries + 1\<close> GETs. An attempt that opens the destination file leaves in it
  exactly the chunks of that attempt, whatever the file held before; after the call the
  file is as it was before the call or holds the chunks of one single attempt.
\<close>

theorem fetch_retry_bound:
  assumes "0 \<le> mr"
  shows "length (gets (snd (download_file e url sp mr bd j w))) \<le> length (gets w) + nat (mr + 1) \<and>
         (fs (snd (download_file e url sp mr bd j w)) sp = fs w sp \<or>
          (\<exists>i < nat (mr + 1).
             fs (snd (download_file e url sp mr bd j w)) sp =
               Some (File (concat (map fst (chunks (server e (length (gets w) + i) url))))))) \<and>
         (\<forall>fsys cs en s0. can_open fsys sp \<longrightarrow>
             fst (snd (attempt_once fsys sp (Reply 200 True cs en) s0)) =
               fsys(sp \<mapsto> File (concat (map fst cs))))"
  using download_loop_gets_bound [of e url sp mr bd j 0 0 w]
        download_loop_content [of e url sp mr bd j 0 0 w]
  by (simp add: download_file_def attempt_once_streams)

lemma ex_fetch_broken_then_ok:
  "download_file (ex_env broken_then_ok) ''u'' ''out/a.png'' 2 1 (1 / 2) (ex_world [''out'' \<mapsto> Dir]) =
   (Inr (True, 3), \<lparr>fs = [''out'' \<mapsto> Dir, ''out/a.png'' \<mapsto> File ''xyz''], gets = [''u'', ''u'', ''u''],
       sleeps = [9 / 4, 17 / 4], draws = 2\<rparr>)"
  by (simp add: eval_defs)

theorem fetch_retry_bound_witness:
  "(0::int) \<le> 2 \<and>
   length (gets (snd (download_file (ex_env broken_then_ok) ''u'' ''out/a.png'' 2 1 (1 / 2)
                        (ex_world [''out'' \<mapsto> Dir])))) = 3 \<and>
   fs (snd (download_file (ex_env broken_then_ok) ''u'' ''out/a.png'' 2 1 (1 / 2)
              (ex_world [''out'' \<mapsto> Dir]))) ''out/a.png'' = Some (File ''xyz'') \<and>
   fst (snd (attempt_once [''out'' \<mapsto> Dir, ''out/a.png'' \<mapsto> File ''abcd''] ''out/a.png''
               (Reply 200 True [(''xyz'', 1)] Complete) 0)) ''out/a.png'' = Some (File ''xyz'')"
proof -
  have le: "(0::int) \<le> 2" by simp
  have co: "can_open [''out'' \<mapsto> Dir, ''out/a.png'' \<mapsto> File ''abcd''] ''out/a.png''"
    by (simp add: eval_defs)
  show ?thesis
    using fetch_retry_bound [OF le, of "ex_env broken_then_ok" "''u''" "''out/a.png''" 1 "1 / 2"
        "ex_world [''out'' \<mapsto> Dir]"] co
    by (simp add: ex_fetch_broken_then_ok)
qed




section \<open>What a run never removes\<close>

lemma attempt_once_change:
  "attempt_once fsys sp resp s0 = (r, fs', s1) \<Longrightarrow>
   fs' = fsys \<or> (can_open fsys sp \<and> (\<exists>b. fs' = fsys(sp \<mapsto> File b)))"
  by (auto simp: attempt_once_def split: response.splits if_splits prod.splits body_end.splits)

lemma attempt_once_keeps:
  assumes "attempt_once fsys sp resp s0 = (r, fs', s1)"
  shows "(fsys p = Some Dir \<longrightarrow> fs' p = Some Dir) \<and> (fsys p \<noteq> None \<longrightarrow> fs' p \<noteq> None)"
  using attempt_once_change [OF assms] by (auto simp: can_open_def)

lemma download_loop_keeps:
  "(fs w p = Some Dir \<longrightarrow> fs (snd (download_loop e url sp mr bd j k s0 w)) p = Some Dir) \<and>
   (fs w p \<noteq> None \<longrightarrow> fs (snd (download_loop e url sp mr bd j k s0 w)) p \<noteq> None)"
proof (induction k s0 w rule: download_loop_cases [where mr = mr and sp = sp and e = e and url = url and bd = bd and j = j])
  case (exit k s0 w)
  then show ?case by (simp add: download_loop_exit)
next
  case (success k s0 w s fs' s')
  then show ?case
    using attempt_once_keeps [OF success(2), of p] by (simp add: download_loop_success)
next
  case (last k s0 w fs' s')
  then show ?case
    using attempt_once_keeps [OF last(2), of p] by (simp add: download_loop_last)
next
  case (backoff_error k s0 w fs' s' err w3)
  then show ?case
    using attempt_once_keeps [OF backoff_error(2), of p] backoff_frame [OF backoff_error(4)]
    by (simp add: download_loop_backoff_error)
next
  case (retry k s0 w fs' s' u w3)
  then show ?case
    using attempt_once_keeps [OF retry(2), of p] backoff_frame [OF retry(4)]
    by (simp add: download_loop_retry)
qed


lemma save_downloaded_keeps:
  assumes "save_downloaded fsys sp = Inr fs1"
  shows "(fsys p = Some Dir \<longrightarrow> fs1 p = Some Dir) \<and> (fsys p \<noteq> None \<longrightarrow> fs1 p \<noteq> None)"
  using assms by (auto simp: save_downloaded_def split: option.splits node.splits)

lemma after_download_keeps:
  "(fs w p = Some Dir \<longrightarrow> fs (snd (after_download e a sp c success w)) p = Some Dir) \<and>
   (fs w p \<noteq> None \<longrightarrow> fs (snd (after_download e a sp c success w)) p \<noteq> None)"
  using after_download_fs [of e a sp c success w] save_downloaded_keeps [of "fs w" sp _ p]
  by auto

lemma process_row_keeps_after:
  assumes "os_makedirs (fs w) (os_path_dirname (row_save_path a r)) = Inr fs1"
  shows "(fs1 p = Some Dir \<longrightarrow> fs (snd (process_row e a cfg downloaded r (c, w))) p = Some Dir) \<and>
         (fs1 p \<noteq> None \<longrightarrow> fs (snd (process_row e a cfg downloaded r (c, w))) p \<noteq> None)"
proof -
  let ?d = "download_file e (row_url cfg r) (row_save_path a r) (max_retries a) (delay a) (jitter a) (w\<lparr>fs := fs1\<rparr>)"
  obtain res w2 where d: "?d = (res, w2)" by (cases ?d)
  have k2: "(fs1 p = Some Dir \<longrightarrow> fs w2 p = Some Dir) \<and> (fs1 p \<noteq> None \<longrightarrow> fs w2 p \<noteq> None)"
    using download_loop_keeps [of "w\<lparr>fs := fs1\<rparr>" p e "row_url cfg r" "row_save_path a r" "max_retries a"
        "delay a" "jitter a" 0 0] d
    by (simp add: download_file_def)
  show ?thesis
  proof (cases res)
    case (Inl err)
    then show ?thesis
      using assms d k2 by (simp add: process_row_def Let_def)
  next
    case (Inr x)
    obtain success speed where x: "x = (success, speed)" by (cases x)
    show ?thesis
      using assms d k2 Inr x after_download_keeps [of w2 p e a "row_save_path a r" c success]
      by (simp add: process_row_def Let_def)
  qed
qed



section \<open>Directory creation\<close>

lemma nested_path: "row_save_path (ex_args dry) nested_row = ''out/sub/a.png''"
  by (simp add: row_save_path_def row_save_name_def os_path_join_def sep_def)

lemma nested_dirname: "os_path_dirname ''out/sub/a.png'' = ''out/sub''"
  by (simp add: os_path_dirname_def os_path_split_def rstrip_sep_def sep_def Let_def)

lemma nested_ancestors: "ancestors ''out/sub'' = [''out/sub'', ''out'']"
  by (simp add: ancestors.simps is_root_def os_path_dirname_def os_path_split_def rstrip_sep_def sep_def Let_def)

lemma nested_makedirs:
  "os_makedirs [''out'' \<mapsto> Dir] ''out/sub'' =
     Inr (\<lambda>p. if p \<in> set [''out/sub'', ''out''] then Some Dir else [''out'' \<mapsto> Dir] p)"
  by (simp add: os_makedirs_def nested_ancestors is_file_def)

text \<open>
  C7, as stated, fails: in a dry run a row with a nested name is stopped by the fourth
  check, no GET is issued, and still the directory \<^verbatim>\<open>out/sub\<close>, absent before, exists
  afterwards.
\<close>

theorem dry_run_creates_directory:
  "dry_run (ex_args True) \<and>
   fs (ex_world [''out'' \<mapsto> Dir]) ''out/sub'' = None \<and>
   fst (process_row (ex_env always_500) (ex_args True) (ex_config None) {} nested_row
          (zero_counters, ex_world [''out'' \<mapsto> Dir])) = Inr (zero_counters\<lparr>skipped_dry_run := 1\<rparr>) \<and>
   gets (snd (process_row (ex_env always_500) (ex_args True) (ex_config None) {} nested_row
          (zero_counters, ex_world [''out'' \<mapsto> Dir]))) = [] \<and>
   fs (snd (process_row (ex_env always_500) (ex_args True) (ex_config None) {} nested_row
          (zero_counters, ex_world [''out'' \<mapsto> Dir]))) ''out/sub'' = Some Dir"
  by (simp add: process_row_def Let_def nested_path nested_dirname nested_makedirs
      os_path_exists_def is_root_def sep_def found_in_local_dir_def zero_counters_def)

text \<open>
  C7, amended. The parent directories of the save path are made for every row, before
  the skip checks. If that fails the row stops with the error and the world untouched;
  a row that is processed to its end, skipped or fetched, leaves the parent directory
  of its save path in place.
\<close>

theorem parent_dirs_before_checks:
  "(\<forall>err. os_makedirs (fs w) (os_path_dirname (row_save_path a r)) = Inl err \<longrightarrow>
       process_row e a cfg downloaded r (c, w) = (Inl err, w)) \<and>
   (\<forall>c'. fst (process_row e a cfg downloaded r (c, w)) = Inr c' \<longrightarrow>
       os_path_isdir (fs (snd (process_row e a cfg downloaded r (c, w))))
         (os_path_dirname (row_save_path a r)))"
proof (intro conjI allI impI)
  fix err
  assume "os_makedirs (fs w) (os_path_dirname (row_save_path a r)) = Inl err"
  then show "process_row e a cfg downloaded r (c, w) = (Inl err, w)"
    by (simp add: process_row_def Let_def)
next
  fix c'
  assume ok: "fst (process_row e a cfg downloaded r (c, w)) = Inr c'"
  show "os_path_isdir (fs (snd (process_row e a cfg downloaded r (c, w))))
         (os_path_dirname (row_save_path a r))"
  proof (cases "os_makedirs (fs w) (os_path_dirname (row_save_path a r))")
    case (Inl err)
    then show ?thesis using ok by (simp add: process_row_def Let_def)
  next
    case (Inr fs1)
    have "os_path_isdir fs1 (os_path_dirname (row_save_path a r))"
      by (rule makedirs_isdir [OF Inr])
    then show ?thesis
      using process_row_keeps_after [OF Inr, of "os_path_dirname (row_save_path a r)" e cfg downloaded c]
      by (auto simp: os_path_isdir_def)
  qed
qed

theorem parent_dirs_before_checks_witness:
  "os_makedirs (fs (ex_world [''out'' \<mapsto> Dir, ''out/sub'' \<mapsto> File ''x''])) (os_path_dirname (row_save_path (ex_args True) nested_row)) =
     Inl FileExistsError \<and>
   process_row (ex_env always_500) (ex_args True) (ex_config None) {} nested_row
          (zero_counters, ex_world [''out'' \<mapsto> Dir, ''out/sub'' \<mapsto> File ''x'']) =
     (Inl FileExistsError, ex_world [''out'' \<mapsto> Dir, ''out/sub'' \<mapsto> File ''x'']) \<and>
   fst (process_row (ex_env always_500) (ex_args True) (ex_config None) {} nested_row
          (zero_counters, ex_world [''out'' \<mapsto> Dir])) = Inr (zero_counters\<lparr>skipped_dry_run := 1\<rparr>) \<and>
   os_path_isdir (fs (snd (process_row (ex_env always_500) (ex_args True) (ex_config None) {} nested_row
          (zero_counters, ex_world [''out'' \<mapsto> Dir])))) ''out/sub''"
proof -
  have bad: "os_makedirs (fs (ex_world [''out'' \<mapsto> Dir, ''out/sub'' \<mapsto> File ''x''])) (os_path_dirname (row_save_path (ex_args True) nested_row)) =
     Inl FileExistsError"
    by (simp add: nested_path nested_dirname os_makedirs_def nested_ancestors is_file_def)
  have ok: "fst (process_row (ex_env always_500) (ex_args True) (ex_config None) {} nested_row
          (zero_counters, ex_world [''out'' \<mapsto> Dir])) = Inr (zero_counters\<lparr>skipped_dry_run := 1\<rparr>)"
    by (simp add: process_row_def Let_def nested_path nested_dirname nested_makedirs
      os_path_exists_def is_root_def sep_def found_in_local_dir_def zero_counters_def)
  show ?thesis
    using parent_dirs_before_checks [of "ex_world [''out'' \<mapsto> Dir, ''out/sub'' \<mapsto> File ''x'']" "ex_args True" nested_row
        "ex_env always_500" "ex_config None" "{}" zero_counters]
      parent_dirs_before_checks [of "ex_world [''out'' \<mapsto> Dir]" "ex_args True" nested_row
        "ex_env always_500" "ex_config None" "{}" zero_counters] bad ok
    by (simp add: nested_path nested_dirname)
qed

section \<open>A save path met twice in one run\<close>







section \<open>A partial file left behind\<close>

lemma attempt_once_keeps_file:
  assumes "attempt_once fsys sp resp s0 = (r, fs', s1)"
  shows "is_file (fsys p) \<longrightarrow> is_file (fs' p)"
  using attempt_once_change [OF assms] by (auto simp: is_file_def)

lemma download_loop_keeps_file:
  "is_file (fs w p) \<longrightarrow> is_file (fs (snd (download_loop e url sp mr bd j k s0 w)) p)"
proof (induction k s0 w rule: download_loop_cases [where mr = mr and sp = sp and e = e and url = url and bd = bd and j = j])
  case (exit k s0 w)
  then show ?case by (simp add: download_loop_exit)
next
  case (success k s0 w s fs' s')
  then show ?case
    using attempt_once_keeps_file [OF success(2), of p] by (simp add: download_loop_success)
next
  case (last k s0 w fs' s')
  then show ?case
    using attempt_once_keeps_file [OF last(2), of p] by (simp add: download_loop_last)
next
  case (backoff_error k s0 w fs' s' err w3)
  then show ?case
    using attempt_once_keeps_file [OF backoff_error(2), of p] backoff_frame [OF backoff_error(4)]
    by (simp add: download_loop_backoff_error)
next
  case (retry k s0 w fs' s' u w3)
  then show ?case
    using attempt_once_keeps_file [OF retry(2), of p] backoff_frame [OF retry(4)]
    by (simp add: download_loop_retry)
qed

lemma dirname_not_self: "os_path_basename sp \<noteq> [] \<Longrightarrow> os_path_dirname sp \<noteq> sp"
  using basename_dirname_shorter [of sp] by auto

lemma attempt_once_can_open:
  assumes "attempt_once fsys sp resp s0 = (r, fs', s1)" and "can_open fsys sp"
  shows "can_open fs' sp"
proof -
  have "os_path_dirname sp \<noteq> sp"
    using assms(2) by (simp add: can_open_def dirname_not_self)
  then show ?thesis
    using attempt_once_change [OF assms(1)] assms(2)
    by (auto simp: can_open_def os_path_isdir_def)
qed

lemma attempt_once_broken:
  assumes "attempt_once fsys sp (Reply 200 True cs Broken) s0 = (r, fs', s1)" and "can_open fsys sp"
  shows "is_file (fs' sp)"
  using assms by (auto simp: attempt_once_def is_file_def split: prod.splits)

lemma attempt_once_failed_write:
  "attempt_once fsys sp resp s0 = (Failed, fs', s1) \<Longrightarrow>
   fs' sp = fsys sp \<or> (\<exists>cs. resp = Reply 200 True cs Broken \<and> fs' sp = Some (File (concat (map fst cs))))"
  using iter_content_fst [of "chunks resp" "[]" 0 s0]
  by (auto simp: attempt_once_def split: response.splits if_splits prod.splits body_end.splits)

text \<open>
  When the fetcher returns a failure, the save path is as before or holds the chunks of
  an attempt that broke in mid-stream.
\<close>

lemma download_loop_failed_write:
  "fst (download_loop e url sp mr bd j k s0 w) = Inr (False, z) \<Longrightarrow>
   fs (snd (download_loop e url sp mr bd j k s0 w)) sp = fs w sp \<or>
   (\<exists>i < nat (mr + 1 - int k). \<exists>cs.
      server e (length (gets w) + i) url = Reply 200 True cs Broken \<and>
      fs (snd (download_loop e url sp mr bd j k s0 w)) sp = Some (File (concat (map fst cs))))"
proof (induction k s0 w rule: download_loop_cases [where mr = mr and sp = sp and e = e and url = url and bd = bd and j = j])
  case (exit k s0 w)
  then show ?case by (simp add: download_loop_exit)
next
  case (success k s0 w s1 fs' s')
  then show ?case by (simp add: download_loop_success)
next
  case (last k s0 w fs' s')
  have pos: "0 < nat (mr + 1 - int k)" using last(1) by simp
  show ?case
    using attempt_once_failed_write [OF last(2)] pos
    by (auto simp: download_loop_last [OF last(1,2,3)] intro!: exI [of _ 0])
next
  case (backoff_error k s0 w fs' s' err w3)
  then show ?case by (simp add: download_loop_backoff_error)
next
  case (retry k s0 w fs' s' u w3)
  let ?res = "download_loop e url sp mr bd j k s0 w"
  have eq: "?res = download_loop e url sp mr bd j (Suc k) s' w3"
    by (rule download_loop_retry [OF retry(1,2,3,4)])
  have fr: "fs w3 = fs'" "gets w3 = gets w @ [url]"
    using backoff_frame [OF retry(4)] by simp_all
  have pos: "0 < nat (mr + 1 - int k)" using retry(1) by simp
  have "fst (download_loop e url sp mr bd j (Suc k) s' w3) = Inr (False, z)"
    using retry(6) by (simp add: eq)
  from retry(5) [OF this] consider
      (same) "fs (snd ?res) sp = fs' sp"
    | (later) i cs where "i < nat (mr + 1 - int (Suc k))"
        "server e (length (gets w) + Suc i) url = Reply 200 True cs Broken"
        "fs (snd ?res) sp = Some (File (concat (map fst cs)))"
    by (auto simp: eq fr)
  then show ?case
  proof cases
    case same
    then show ?thesis
      using attempt_once_failed_write [OF retry(2)] pos by (auto intro!: exI [of _ 0])
  next
    case later
    have "Suc i < nat (mr + 1 - int k)" using later(1) by simp
    with later(2,3) show ?thesis by blast
  qed
qed

text \<open>
  When the fetcher returns a failure and one of its attempts got status 200 and broke in
  mid-stream, the destination being one that can be opened, the save path holds a file.
\<close>

lemma download_loop_partial_file:
  "fst (download_loop e url sp mr bd j k s0 w) = Inr (False, z) \<Longrightarrow>
   can_open (fs w) sp \<Longrightarrow> i0 < nat (mr + 1 - int k) \<Longrightarrow>
   server e (length (gets w) + i0) url = Reply 200 True cs Broken \<Longrightarrow>
   is_file (fs (snd (download_loop e url sp mr bd j k s0 w)) sp)"
proof (induction k s0 w arbitrary: i0 rule: download_loop_cases [where mr = mr and sp = sp and e = e and url = url and bd = bd and j = j])
  case (exit k s0 w)
  then show ?case by simp
next
  case (success k s0 w s1 fs' s')
  then show ?case by (simp add: download_loop_success)
next
  case (last k s0 w fs' s')
  have "nat (mr + 1 - int k) = 1" using last(1,3) by simp
  with last(6) have "i0 = 0" by simp
  with last(7) have "server e (length (gets w)) url = Reply 200 True cs Broken" by simp
  with last(2,5) have "is_file (fs' sp)" by (auto intro: attempt_once_broken)
  then show ?case by (simp add: download_loop_last [OF last(1,2,3)])
next
  case (backoff_error k s0 w fs' s' err w3)
  then show ?case by (simp add: download_loop_backoff_error)
next
  case (retry k s0 w fs' s' u w3)
  have eq: "download_loop e url sp mr bd j k s0 w = download_loop e url sp mr bd j (Suc k) s' w3"
    by (rule download_loop_retry [OF retry(1,2,3,4)])
  have fr: "fs w3 = fs'" "gets w3 = gets w @ [url]"
    using backoff_frame [OF retry(4)] by simp_all
  have failed: "fst (download_loop e url sp mr bd j (Suc k) s' w3) = Inr (False, z)"
    using retry(6) by (simp add: eq)
  show ?case
  proof (cases i0)
    case 0
    with retry(9) have "server e (length (gets w)) url = Reply 200 True cs Broken" by simp
    with retry(2,7) have "is_file (fs w3 sp)" by (auto simp: fr intro: attempt_once_broken)
    then show ?thesis
      using download_loop_keeps_file [of w3 sp e url sp mr bd j "Suc k" s'] by (simp add: eq)
  next
    case (Suc i1)
    have co: "can_open (fs w3) sp"
      using attempt_once_can_open [OF retry(2,7)] by (simp add: fr)
    have "nat (mr + 1 - int k) = Suc (nat (mr + 1 - int (Suc k)))"
      using retry(3) by simp
    then have lt: "i1 < nat (mr + 1 - int (Suc k))" using retry(8) Suc by linarith
    have br: "server e (length (gets w3) + i1) url = Reply 200 True cs Broken"
      using retry(9) Suc by (simp add: fr)
    from retry(5) [OF failed co lt br] show ?thesis by (simp add: eq)
  qed
qed

lemma ex_makedirs_out: "os_makedirs Map.empty ''out'' = Inr [''out'' \<mapsto> Dir]"
  by (auto simp: makedirs_Inr ex_ancestors is_file_def)

lemma nested_makedirs_upd:
  "m ''out'' = Some Dir \<Longrightarrow> \<not> is_file (m ''out/sub'') \<Longrightarrow>
   os_makedirs m ''out/sub'' = Inr (m(''out/sub'' \<mapsto> Dir))"
  by (auto simp: makedirs_Inr nested_ancestors is_file_def)

lemma ex_first_run:
  "main (ex_env broken_thrice_then_abcd) (ex_args False) (ex_config None) [ex_row, nested_row]
      (ex_world Map.empty) =
   (Inr (zero_counters\<lparr>downloaded_count := 1\<rparr>),
    \<lparr>fs = [''out'' \<mapsto> Dir, ''out/a.png'' \<mapsto> File ''ab'', ''out/sub'' \<mapsto> Dir,
           ''out/sub/a.png'' \<mapsto> File ''abcd'', LOG_FILE \<mapsto> File (''out/sub/a.png'' @ [LF])],
     gets = [''https://us-east-1.tixte.net/uploads/cdn/a.png'',
             ''https://us-east-1.tixte.net/uploads/cdn/a.png'',
             ''https://us-east-1.tixte.net/uploads/cdn/a.png'',
             ''https://us-east-1.tixte.net/uploads/cdn/sub/a.png''],
     sleeps = [9 / 4, 17 / 4, 5 / 4, 5 / 4], draws = 4\<rparr>)"
  by (simp add: main_def ex_makedirs_out load_downloaded_def LOG_FILE_def
      process_row_def ex_path ex_dirname ex_makedirs nested_path nested_dirname nested_makedirs_upd
      is_file_def eval_defs found_in_local_dir_def
      after_download_def save_downloaded_def row_url_def row_subdomain_def construct_url_def
      zero_counters_def)

lemma ex_ledger_after_first_run:
  "load_downloaded [''out'' \<mapsto> Dir, ''out/a.png'' \<mapsto> File ''ab'', ''out/sub'' \<mapsto> Dir,
           ''out/sub/a.png'' \<mapsto> File ''abcd'', ''downloaded.log'' \<mapsto> File (''out/sub/a.png'' @ [LF])] ''out'' =
   Inr {''out/a.png''}"
  by (simp add: load_downloaded_def LOG_FILE_def os_path_exists_def read_lines_def add_line_def strip_def
      is_space_def os_path_split_def os_path_join_def rstrip_sep_def sep_def LF_def CR_def Let_def)

text \<open>
  C8, as stated, fails. The manifest has the rows \<^verbatim>\<open>a.png\<close> and \<^verbatim>\<open>sub/a.png\<close>. In the
  first run every attempt for \<^verbatim>\<open>a.png\<close> gets status 200 and breaks in mid-stream, and
  \<^verbatim>\<open>sub/a.png\<close> is downloaded. The partial file \<^verbatim>\<open>out/a.png\<close> persists, but the next run
  stops that row at the check of the ledger, not at the check of the output tree: the
  line recorded for \<^verbatim>\<open>out/sub/a.png\<close> is read back as \<^verbatim>\<open>out/a.png\<close>. (With the whole
  manifest the next run counts one row at each check, \<^verbatim>\<open>sub/a.png\<close> being stopped at
  the check of the output tree.)
\<close>

theorem partial_file_skipped_as_logged:
  "server (ex_env broken_thrice_then_abcd) 0 (row_url (ex_config None) ex_row) =
     Reply 200 True [(''ab'', 1)] Broken \<and>
   fst (main (ex_env broken_thrice_then_abcd) (ex_args False) (ex_config None) [ex_row, nested_row]
          (ex_world Map.empty)) = Inr (zero_counters\<lparr>downloaded_count := 1\<rparr>) \<and>
   fs (snd (main (ex_env broken_thrice_then_abcd) (ex_args False) (ex_config None) [ex_row, nested_row]
          (ex_world Map.empty))) ''out/a.png'' = Some (File ''ab'') \<and>
   fst (main (ex_env always_abcd) (ex_args False) (ex_config None) [ex_row]
          (ex_world (fs (snd (main (ex_env broken_thrice_then_abcd) (ex_args False) (ex_config None)
                                 [ex_row, nested_row] (ex_world Map.empty)))))) =
     Inr (zero_counters\<lparr>skipped_logged := 1\<rparr>) \<and>
   skipped_exists_output (zero_counters\<lparr>skipped_logged := 1\<rparr>) = 0 \<and>
   fst (main (ex_env always_abcd) (ex_args False) (ex_config None) [ex_row, nested_row]
          (ex_world (fs (snd (main (ex_env broken_thrice_then_abcd) (ex_args False) (ex_config None)
                                 [ex_row, nested_row] (ex_world Map.empty)))))) =
     Inr (zero_counters\<lparr>skipped_logged := 1, skipped_exists_output := 1\<rparr>)"
  using ex_ledger_after_first_run unfolding ex_first_run
  by (simp add: main_def LOG_FILE_def ex_makedirs process_row_def ex_path
      ex_dirname nested_path nested_dirname nested_makedirs_upd is_file_def os_path_exists_def
      zero_counters_def row_url_def row_subdomain_def construct_url_def)

text \<open>
  C8, amended. A row reaches the fetcher, the destination can be opened, one of the
  attempts gets status 200 and breaks in mid-stream, and the fetcher returns a failure.
  Then the save path is left holding the chunks delivered to an attempt that broke in
  mid-stream. Whenever the row is processed again with the same output directory, in a
  world where no file or directory of that one has gone, nothing is requested: the row
  is stopped by the check of the ledger when the set read from it holds the save path,
  and by the check of the output tree otherwise; that counter alone is incremented.
\<close>

theorem partial_file_blocks_retry:
  assumes mk: "os_makedirs (fs w) (os_path_dirname (row_save_path a r)) = Inr fs1"
    and ns: "row_save_path a r \<notin> downloaded" "\<not> os_path_exists fs1 (row_save_path a r)"
       "\<not> found_in_local_dir e cfg fs1 (row_save_name r)" "\<not> dry_run a"
    and op: "can_open fs1 (row_save_path a r)"
    and broken: "i0 < nat (max_retries a + 1)"
       "server e (length (gets w) + i0) (row_url cfg r) = Reply 200 True cs Broken"
    and failed: "fst (download_file e (row_url cfg r) (row_save_path a r) (max_retries a) (delay a) (jitter a)
                        (w\<lparr>fs := fs1\<rparr>)) = Inr (False, z)"
    and later: "args_output a' = args_output a"
       "\<forall>p. (fs (snd (process_row e a cfg downloaded r (c, w))) p = Some Dir \<longrightarrow> fs w2 p = Some Dir) \<and>
            (fs (snd (process_row e a cfg downloaded r (c, w))) p \<noteq> None \<longrightarrow> fs w2 p \<noteq> None)"
  shows
    "(\<exists>i < nat (max_retries a + 1). \<exists>cs'.
        server e (length (gets w) + i) (row_url cfg r) = Reply 200 True cs' Broken \<and>
        fs (snd (process_row e a cfg downloaded r (c, w))) (row_save_path a r) =
          Some (File (concat (map fst cs')))) \<and>
     fst (process_row e' a' cfg' downloaded' r (c', w2)) =
       Inr (if row_save_path a r \<in> downloaded'
            then c'\<lparr>skipped_logged := skipped_logged c' + 1\<rparr>
            else c'\<lparr>skipped_exists_output := skipped_exists_output c' + 1\<rparr>) \<and>
     gets (snd (process_row e' a' cfg' downloaded' r (c', w2))) = gets w2"
proof -
  let ?sp = "row_save_path a r"
  let ?w0 = "w\<lparr>fs := fs1\<rparr>"
  let ?l = "download_loop e (row_url cfg r) ?sp (max_retries a) (delay a) (jitter a) 0 0 ?w0"
  let ?w1 = "snd (process_row e a cfg downloaded r (c, w))"
  have fl: "fst ?l = Inr (False, z)"
    using failed by (simp add: download_file_def)
  have pr: "process_row e a cfg downloaded r (c, w) = after_download e a ?sp c False (snd ?l)"
    using fl by (cases ?l) (simp add: process_row_fetch [OF mk ns] download_file_def)
  have fs_eq: "fs ?w1 = fs (snd ?l)"
    by (simp add: pr after_failed_download_fs)
  have isf: "is_file (fs (snd ?l) ?sp)"
    using download_loop_partial_file [OF fl, of i0 cs] op broken by simp
  have none: "fs ?w0 ?sp = None"
    using ns(2) by (simp add: os_path_exists_def)
  have content: "\<exists>i < nat (max_retries a + 1). \<exists>cs'.
        server e (length (gets w) + i) (row_url cfg r) = Reply 200 True cs' Broken \<and>
        fs ?w1 ?sp = Some (File (concat (map fst cs')))"
    using download_loop_failed_write [OF fl] isf none
    by (auto simp: fs_eq is_file_def)
  have dirs: "\<forall>x \<in> set (ancestors (os_path_dirname ?sp)). fs w2 x = Some Dir"
  proof
    fix x assume "x \<in> set (ancestors (os_path_dirname ?sp))"
    then have "fs1 x = Some Dir" using mk by (simp add: makedirs_Inr)
    then have "fs ?w1 x = Some Dir"
      using process_row_keeps_after [OF mk, of x e cfg downloaded c] by simp
    with later(2) show "fs w2 x = Some Dir" by blast
  qed
  have same: "row_save_path a' r = ?sp"
    by (simp add: row_save_path_def later(1))
  have mk2: "os_makedirs (fs w2) (os_path_dirname (row_save_path a' r)) = Inr (fs w2)"
    using makedirs_again [OF mk dirs] by (simp add: same)
  have "fs ?w1 ?sp \<noteq> None"
    using isf by (auto simp: fs_eq is_file_def split: option.splits)
  with later(2) have "fs w2 ?sp \<noteq> None" by blast
  then have ex: "os_path_exists (fs w2) ?sp"
    by (simp add: os_path_exists_def)
  have "process_row e' a' cfg' downloaded' r (c', w2) =
       (Inr (if ?sp \<in> downloaded'
             then c'\<lparr>skipped_logged := skipped_logged c' + 1\<rparr>
             else c'\<lparr>skipped_exists_output := skipped_exists_output c' + 1\<rparr>), w2)"
    using mk2 ex by (simp add: process_row_def [of e' a'] Let_def same)
  with content show ?thesis by simp
qed

lemma ex_partial_row:
  "process_row (ex_env always_broken) (ex_args False) (ex_config None) {} ex_row
      (zero_counters, ex_world [''out'' \<mapsto> Dir]) =
   (Inr zero_counters,
    \<lparr>fs = [''out'' \<mapsto> Dir, ''out/a.png'' \<mapsto> File ''ab''],
     gets = [''https://us-east-1.tixte.net/uploads/cdn/a.png'',
             ''https://us-east-1.tixte.net/uploads/cdn/a.png'',
             ''https://us-east-1.tixte.net/uploads/cdn/a.png''],
     sleeps = [9 / 4, 17 / 4, 5 / 4], draws = 3\<rparr>)"
  by (simp add: process_row_def ex_path ex_dirname ex_makedirs eval_defs found_in_local_dir_def
      after_download_def row_url_def row_subdomain_def construct_url_def zero_counters_def)

theorem partial_file_blocks_retry_witness:
  "fst (download_file (ex_env always_broken) (row_url (ex_config None) ex_row) ''out/a.png'' 2 1 (1 / 2)
          (ex_world [''out'' \<mapsto> Dir])) = Inr (False, 0) \<and>
   fs (snd (process_row (ex_env always_broken) (ex_args False) (ex_config None) {} ex_row
          (zero_counters, ex_world [''out'' \<mapsto> Dir]))) ''out/a.png'' = Some (File ''ab'') \<and>
   fst (process_row (ex_env always_abcd) (ex_args False) (ex_config None) {} ex_row
          (zero_counters, ex_world [''out'' \<mapsto> Dir, ''out/a.png'' \<mapsto> File ''ab''])) =
     Inr (zero_counters\<lparr>skipped_exists_output := 1\<rparr>) \<and>
   gets (snd (process_row (ex_env always_abcd) (ex_args False) (ex_config None) {} ex_row
          (zero_counters, ex_world [''out'' \<mapsto> Dir, ''out/a.png'' \<mapsto> File ''ab'']))) = []"
proof -
  have mk: "os_makedirs (fs (ex_world [''out'' \<mapsto> Dir])) (os_path_dirname (row_save_path (ex_args False) ex_row)) =
      Inr [''out'' \<mapsto> Dir]"
    by (simp add: ex_path ex_dirname ex_makedirs)
  have ns: "row_save_path (ex_args False) ex_row \<notin> {}"
    "\<not> os_path_exists [''out'' \<mapsto> Dir] (row_save_path (ex_args False) ex_row)"
    "\<not> found_in_local_dir (ex_env always_broken) (ex_config None) [''out'' \<mapsto> Dir] (row_save_name ex_row)"
    "\<not> dry_run (ex_args False)"
    by (simp_all add: ex_path os_path_exists_def is_root_def sep_def found_in_local_dir_def)
  have op: "can_open [''out'' \<mapsto> Dir] (row_save_path (ex_args False) ex_row)"
    by (simp add: ex_path eval_defs)
  have broken: "0 < nat (max_retries (ex_args False) + 1)"
    "server (ex_env always_broken) (length (gets (ex_world [''out'' \<mapsto> Dir])) + 0)
       (row_url (ex_config None) ex_row) = Reply 200 True [(''ab'', 1)] Broken"
    by simp_all
  have failed: "fst (download_file (ex_env always_broken) (row_url (ex_config None) ex_row)
                       (row_save_path (ex_args False) ex_row) (max_retries (ex_args False))
                       (delay (ex_args False)) (jitter (ex_args False))
                       ((ex_world [''out'' \<mapsto> Dir])\<lparr>fs := [''out'' \<mapsto> Dir]\<rparr>)) = Inr (False, 0)"
    by (simp add: ex_path eval_defs)
  have later: "args_output (ex_args False) = args_output (ex_args False)"
    "\<forall>p. (fs (snd (process_row (ex_env always_broken) (ex_args False) (ex_config None) {} ex_row
                      (zero_counters, ex_world [''out'' \<mapsto> Dir]))) p = Some Dir \<longrightarrow>
             fs (ex_world [''out'' \<mapsto> Dir, ''out/a.png'' \<mapsto> File ''ab'']) p = Some Dir) \<and>
          (fs (snd (process_row (ex_env always_broken) (ex_args False) (ex_config None) {} ex_row
                      (zero_counters, ex_world [''out'' \<mapsto> Dir]))) p \<noteq> None \<longrightarrow>
             fs (ex_world [''out'' \<mapsto> Dir, ''out/a.png'' \<mapsto> File ''ab'']) p \<noteq> None)"
    unfolding ex_partial_row by simp_all
  show ?thesis
    using partial_file_blocks_retry [OF mk ns op broken failed later,
        where e' = "ex_env always_abcd" and cfg' = "ex_config None" and downloaded' = "{}"
          and c' = zero_counters] failed
    unfolding ex_partial_row ex_path by (simp add: zero_counters_def)
qed

section \<open>Properties of the ledger\<close>

lemma foldl_add_line:
  "foldl (\<lambda>acc line. add_line output_dir line acc) S ls =
     S \<union> {os_path_join output_dir (os_path_basename (strip line)) | line.
            line \<in> set ls \<and> strip line \<noteq> []}"
  by (induction ls arbitrary: S) (auto simp: add_line_def os_path_basename_def)

lemma LOG_FILE_not_root: "\<not> is_root LOG_FILE"
  by (simp add: is_root_def LOG_FILE_def sep_def)

text \<open>
  What \<^verbatim>\<open>load_downloaded\<close> returns: without a log file the empty set and no error; with
  a log file, for every line that \<^verbatim>\<open>strip\<close> does not empty, the output directory
  joined with the file name component of the stripped line, and nothing else.
\<close>

lemma load_downloaded_keys:
  "(fsys LOG_FILE = None \<longrightarrow> load_downloaded fsys output_dir = Inr {}) \<and>
   (fsys LOG_FILE = Some (File txt) \<longrightarrow>
      load_downloaded fsys output_dir =
        Inr {os_path_join output_dir (os_path_basename (strip line)) | line.
               line \<in> set (read_lines txt) \<and> strip line \<noteq> []})"
  by (simp add: load_downloaded_def os_path_exists_def LOG_FILE_not_root foldl_add_line)

lemma universal_newlines_append:
  "xs = [] \<or> last xs \<noteq> CR \<Longrightarrow>
   universal_newlines (xs @ ys) = universal_newlines xs @ universal_newlines ys"
proof (induction xs rule: universal_newlines.induct)
  case 1
  then show ?case by simp
next
  case (2 c)
  then show ?case by (cases ys) auto
next
  case (3 c d cs)
  then show ?case by (cases cs) (auto split: if_splits)
qed

lemma universal_newlines_id: "CR \<notin> set p \<Longrightarrow> universal_newlines p = p"
  by (induction p rule: universal_newlines.induct) auto

lemma universal_newlines_Nil: "universal_newlines xs = [] \<longleftrightarrow> xs = []"
  by (induction xs rule: universal_newlines.induct) auto

lemma universal_newlines_last:
  "xs \<noteq> [] \<Longrightarrow> last xs = LF \<Longrightarrow> last (universal_newlines xs) = LF"
proof (induction xs rule: universal_newlines.induct)
  case 1
  then show ?case by simp
next
  case (2 c)
  then show ?case by (simp add: LF_def CR_def)
next
  case (3 c d cs)
  then show ?case
    by (cases cs) (auto simp: universal_newlines_Nil split: if_splits)
qed

lemma split_lines_append:
  "xs \<noteq> [] \<Longrightarrow> last xs = LF \<Longrightarrow>
   split_lines cur (xs @ ys) = split_lines cur xs @ split_lines [] ys"
proof (induction xs arbitrary: cur)
  case Nil
  then show ?case by simp
next
  case (Cons c cs)
  then show ?case by (cases "cs = []") auto
qed

lemma split_lines_line:
  "LF \<notin> set p \<Longrightarrow> split_lines cur (p @ LF # ys) = (cur @ p @ [LF]) # split_lines [] ys"
  by (induction p arbitrary: cur) auto

lemma recorded_line_read:
  assumes "LF \<notin> set p" "CR \<notin> set p" "old = [] \<or> last old = LF"
  shows "p @ [LF] \<in> set (read_lines (old @ p @ [LF] @ rest))"
proof -
  have cr: "CR \<notin> set (p @ [LF])"
    using assms(2) by (simp add: CR_def LF_def)
  have "last (p @ [LF]) \<noteq> CR" by (simp add: CR_def LF_def)
  then have pl: "universal_newlines ((p @ [LF]) @ rest) = (p @ [LF]) @ universal_newlines rest"
    using universal_newlines_append [of "p @ [LF]" rest] universal_newlines_id [OF cr] by simp
  have "old = [] \<or> last old \<noteq> CR"
    using assms(3) by (auto simp: CR_def LF_def)
  then have un: "universal_newlines (old @ p @ [LF] @ rest) =
      universal_newlines old @ p @ LF # universal_newlines rest"
    using universal_newlines_append [of old "(p @ [LF]) @ rest"] pl by simp
  show ?thesis
  proof (cases "old = []")
    case True
    then show ?thesis
      using split_lines_line [OF assms(1), of "[]" "universal_newlines rest"] un
      by (simp add: read_lines_def)
  next
    case False
    with assms(3) have "universal_newlines old \<noteq> []" "last (universal_newlines old) = LF"
      by (simp_all add: universal_newlines_Nil universal_newlines_last)
    then have "split_lines [] (universal_newlines old @ p @ LF # universal_newlines rest) =
        split_lines [] (universal_newlines old) @ split_lines [] (p @ LF # universal_newlines rest)"
      by (rule split_lines_append)
    then show ?thesis
      using split_lines_line [OF assms(1), of "[]" "universal_newlines rest"] un
      by (simp add: read_lines_def)
  qed
qed

lemma strip_snoc_space: "is_space c \<Longrightarrow> strip (s @ [c]) = strip s"
proof (cases "\<forall>x \<in> set s. is_space x")
  case True
  assume "is_space c"
  with True have a: "dropWhile is_space (s @ [c]) = []" and b: "dropWhile is_space s = []"
    by simp_all
  show ?thesis unfolding strip_def a b by simp
next
  case False
  assume c: "is_space c"
  from False have "dropWhile is_space (s @ [c]) = dropWhile is_space s @ [c]"
    by (auto simp: dropWhile_append1)
  then show ?thesis using c by (simp add: strip_def)
qed

lemma is_space_LF: "is_space LF"
  by (simp add: is_space_def LF_def)

text \<open>
  What is read back of a recorded path: the key of the path stripped. The path has no
  line break in it and the log is absent or ends in a newline; the log may have grown
  since and the output directory may be another.
\<close>

lemma recorded_path_read_back:
  assumes "LF \<notin> set p" "CR \<notin> set p" "strip p \<noteq> []"
    and "fsys LOG_FILE = None \<or> (\<exists>old. fsys LOG_FILE = Some (File old) \<and> (old = [] \<or> last old = LF))"
  shows "\<exists>fs1 txt. save_downloaded fsys p = Inr fs1 \<and> fs1 LOG_FILE = Some (File txt) \<and>
           (\<forall>fs2 rest output_dir. fs2 LOG_FILE = Some (File (txt @ rest)) \<longrightarrow>
              (\<exists>S. load_downloaded fs2 output_dir = Inr S \<and>
                    os_path_join output_dir (os_path_basename (strip p)) \<in> S))"
proof -
  have "\<exists>old. (old = [] \<or> last old = LF) \<and>
      save_downloaded fsys p = Inr (fsys(LOG_FILE \<mapsto> File (old @ p @ [LF])))"
  proof (cases "fsys LOG_FILE")
    case None
    then have "save_downloaded fsys p = Inr (fsys(LOG_FILE \<mapsto> File ([] @ p @ [LF])))"
      by (simp add: save_downloaded_def)
    then show ?thesis by blast
  next
    case (Some n)
    with assms(4) obtain old where "fsys LOG_FILE = Some (File old)" "old = [] \<or> last old = LF"
      by auto
    then show ?thesis by (auto simp: save_downloaded_def)
  qed
  then obtain old where old: "old = [] \<or> last old = LF"
    and sd: "save_downloaded fsys p = Inr (fsys(LOG_FILE \<mapsto> File (old @ p @ [LF])))"
    by blast
  have key: "\<exists>S. load_downloaded fs2 output_dir = Inr S \<and>
                os_path_join output_dir (os_path_basename (strip p)) \<in> S"
    if f2: "fs2 LOG_FILE = Some (File ((old @ p @ [LF]) @ rest))" for fs2 rest output_dir
  proof -
    have line: "p @ [LF] \<in> set (read_lines ((old @ p @ [LF]) @ rest))"
      using recorded_line_read [OF assms(1,2) old, of rest] by simp
    have st: "strip (p @ [LF]) = strip p"
      by (rule strip_snoc_space [OF is_space_LF])
    have "load_downloaded fs2 output_dir =
        Inr {os_path_join output_dir (os_path_basename (strip line)) | line.
               line \<in> set (read_lines ((old @ p @ [LF]) @ rest)) \<and> strip line \<noteq> []}"
      using f2 by (simp add: load_downloaded_def os_path_exists_def foldl_add_line)
    moreover have "os_path_join output_dir (os_path_basename (strip p)) \<in>
        {os_path_join output_dir (os_path_basename (strip line)) | line.
               line \<in> set (read_lines ((old @ p @ [LF]) @ rest)) \<and> strip line \<noteq> []}"
    proof -
      have "strip (p @ [LF]) \<noteq> []" using st assms(3) by simp
      with line st show ?thesis
        by (intro CollectI exI [of _ "p @ [LF]"]) simp
    qed
    ultimately show ?thesis by blast
  qed
  show ?thesis
    using sd key by (intro exI [of _ "fsys(LOG_FILE \<mapsto> File (old @ p @ [LF]))"] exI [of _ "old @ p @ [LF]"]) simp
qed

text \<open>
  C5. The code diverges from the round trip. A row with the extension \<^verbatim>\<open>png\<close> followed
  by a space has the save path \<^verbatim>\<open>out/a.png\<close> followed by a space. Recorded, the path is
  written to the log as it is; read back, the line is stripped before its file name is
  taken, so the set holds \<^verbatim>\<open>out/a.png\<close> and not the output directory joined with the
  file name component of the path that was recorded.
\<close>

theorem recorded_path_lost_after_strip:
  "row_save_path (ex_args False) spaced_row = ''out/a.png '' \<and>
   save_downloaded Map.empty ''out/a.png '' = Inr [LOG_FILE \<mapsto> File (''out/a.png '' @ [LF])] \<and>
   load_downloaded [LOG_FILE \<mapsto> File (''out/a.png '' @ [LF])] ''out'' = Inr {''out/a.png''} \<and>
   os_path_join ''out'' (os_path_basename ''out/a.png '') = ''out/a.png '' \<and>
   os_path_join ''out'' (os_path_basename ''out/a.png '') \<notin> {''out/a.png''}"
proof (intro conjI)
  show "row_save_path (ex_args False) spaced_row = ''out/a.png ''"
    by (simp add: row_save_path_def row_save_name_def os_path_join_def sep_def)
  show "save_downloaded Map.empty ''out/a.png '' = Inr [LOG_FILE \<mapsto> File (''out/a.png '' @ [LF])]"
    by (simp add: save_downloaded_def)
  show "load_downloaded [LOG_FILE \<mapsto> File (''out/a.png '' @ [LF])] ''out'' = Inr {''out/a.png''}"
    by code_simp
  show j: "os_path_join ''out'' (os_path_basename ''out/a.png '') = ''out/a.png ''"
    by code_simp
  show "os_path_join ''out'' (os_path_basename ''out/a.png '') \<notin> {''out/a.png''}"
    unfolding j by simp
qed

text \<open>
  C6. The code diverges from the keys claimed, by the same stripping as in C5. Reading
  fails soft, and a blank line is skipped; but a line that holds \<^verbatim>\<open>old/b.jpg\<close> followed
  by a tab is keyed by the file name component of the line stripped, \<^verbatim>\<open>b.jpg\<close>, and
  not by the file name component of the line, which ends in the tab.
\<close>

theorem ledger_line_keyed_after_strip:
  "load_downloaded Map.empty ''new'' = Inr {} \<and>
   read_lines (''out/a.png'' @ [LF] @ [LF] @ ''old/b.jpg'' @ [CHR 0x09] @ [LF]) =
     [''out/a.png'' @ [LF], [LF], ''old/b.jpg'' @ [CHR 0x09] @ [LF]] \<and>
   load_downloaded [LOG_FILE \<mapsto> File (''out/a.png'' @ [LF] @ [LF] @ ''old/b.jpg'' @ [CHR 0x09] @ [LF])] ''new'' =
     Inr {''new/a.png'', ''new/b.jpg''} \<and>
   os_path_join ''new'' (os_path_basename (''old/b.jpg'' @ [CHR 0x09])) = ''new/b.jpg'' @ [CHR 0x09] \<and>
   os_path_join ''new'' (os_path_basename (''old/b.jpg'' @ [CHR 0x09])) \<notin> {''new/a.png'', ''new/b.jpg''}"
proof (intro conjI)
  show "load_downloaded Map.empty ''new'' = Inr {}"
    by (simp add: load_downloaded_def os_path_exists_def LOG_FILE_not_root)
  show "read_lines (''out/a.png'' @ [LF] @ [LF] @ ''old/b.jpg'' @ [CHR 0x09] @ [LF]) =
     [''out/a.png'' @ [LF], [LF], ''old/b.jpg'' @ [CHR 0x09] @ [LF]]"
    by code_simp
  show "load_downloaded [LOG_FILE \<mapsto> File (''out/a.png'' @ [LF] @ [LF] @ ''old/b.jpg'' @ [CHR 0x09] @ [LF])] ''new'' =
     Inr {''new/a.png'', ''new/b.jpg''}"
    by code_simp
  show j: "os_path_join ''new'' (os_path_basename (''old/b.jpg'' @ [CHR 0x09])) = ''new/b.jpg'' @ [CHR 0x09]"
    by code_simp
  show "os_path_join ''new'' (os_path_basename (''old/b.jpg'' @ [CHR 0x09])) \<notin> {''new/a.png'', ''new/b.jpg''}"
    unfolding j by simp
qed

end
